theory Spec2Isabelle
  imports Complex_Main "HOL-Library.Multiset"
begin

section \<open>The graph-log parser \<^verbatim>\<open>parse\<close>: a shallow embedding\<close>

text \<open>
  The development models the function \<^verbatim>\<open>parse(log_data, branch_data, stash_data, separator,
  curve_radius)\<close> and its comparator \<^verbatim>\<open>git_ref_sort\<close>.

  Conventions of the embedding.
  \<^item> A JavaScript string is a \<^typ>\<open>string\<close> (a list of 8-bit characters); on ASCII input the
    string methods modelled below agree with the source's.
  \<^item> A JavaScript number is a \<^typ>\<open>real\<close> where it is a coordinate, and an \<^typ>\<open>int\<close> or
    \<^typ>\<open>nat\<close> where it is an index or a length. Rounding of floating point is not modelled.
  \<^item> \<^verbatim>\<open>undefined\<close> and \<^verbatim>\<open>null\<close> are \<open>None\<close>.
  \<^item> Objects that the source shares and mutates (Branch and VisLine objects) live in
    explicit stores; an address is an index into the store. Reference equality
    (\<^verbatim>\<open>===\<close>, \<^verbatim>\<open>indexOf\<close>) is equality of addresses.
  \<^item> An exception is a value \<open>Inl e\<close> of the result type.
  \<^item> The loop variables \<^verbatim>\<open>row_no\<close> and \<^verbatim>\<open>i\<close> are read as the numeric row and column index
    (the geometry \<^verbatim>\<open>x0 += i\<close> and the neighbour look-ups \<^verbatim>\<open>i + 1\<close>, \<^verbatim>\<open>i - 1\<close> are column
    arithmetic); variables assigned without a declaration and bindings written inside
    a condition are read as locals of \<^verbatim>\<open>parse\<close>.
  \<^item> A dictionary keyed by branch id is an association list in insertion order; keys
    that name members every JavaScript object inherits (such as \<^verbatim>\<open>constructor\<close>) are
    outside the model.
\<close>

subsection \<open>String methods\<close>

abbreviation backslash :: char where
  "backslash \<equiv> CHR 0x5C"

text \<open>\<^verbatim>\<open>s.startsWith(p)\<close>.\<close>

fun startsWith :: "string \<Rightarrow> string \<Rightarrow> bool" where
  "startsWith s [] = True"
| "startsWith [] (p # ps) = False"
| "startsWith (c # cs) (p # ps) = (c = p \<and> startsWith cs ps)"

text \<open>\<^verbatim>\<open>s.split(sep)\<close> for a separator that is not empty: the result always has at least
  one field.\<close>

function split_on :: "string \<Rightarrow> string \<Rightarrow> string list" where
  "split_on sep [] = [[]]"
| "split_on sep (c # cs) =
     (if sep \<noteq> [] \<and> startsWith (c # cs) sep
      then [] # split_on sep (drop (length sep) (c # cs))
      else (case split_on sep cs of [] \<Rightarrow> [[c]] | w # ws \<Rightarrow> (c # w) # ws))"
  by pat_completeness auto
termination
  by (relation "measure (\<lambda>(sep, s). length s)") auto

text \<open>\<^verbatim>\<open>s.split(sep)\<close>: with the empty separator the string falls into its characters
  (and the empty string into no field at all).\<close>

definition js_split :: "string \<Rightarrow> string \<Rightarrow> string list" where
  "js_split s sep = (if sep = [] then map (\<lambda>c. [c]) s else split_on sep s)"

text \<open>\<^verbatim>\<open>parts.join(sep)\<close>.\<close>

fun join :: "string \<Rightarrow> string list \<Rightarrow> string" where
  "join sep [] = []"
| "join sep [x] = x"
| "join sep (x # y # ys) = x @ sep @ join sep (y # ys)"

text \<open>\<^verbatim>\<open>s.indexOf(c)\<close> for a single character: the first position, or \<open>-1\<close>.\<close>

fun indexOf :: "string \<Rightarrow> char \<Rightarrow> int" where
  "indexOf [] c = - 1"
| "indexOf (x # xs) c =
     (if x = c then 0 else (let r = indexOf xs c in if r < 0 then - 1 else r + 1))"

text \<open>\<^verbatim>\<open>s.trimEnd()\<close>, on the ASCII white space characters.\<close>

definition is_space :: "char \<Rightarrow> bool" where
  "is_space c = (c \<in> set [CHR '' '', CHR 0x09, CHR 0x0A, CHR 0x0B, CHR 0x0C, CHR 0x0D])"

definition trimEnd :: "string \<Rightarrow> string" where
  "trimEnd s = rev (dropWhile is_space (rev s))"

text \<open>\<^verbatim>\<open>xs[k]\<close>: reading an array outside its bounds gives \<^verbatim>\<open>undefined\<close>.\<close>

definition elem_at :: "'a list \<Rightarrow> int \<Rightarrow> 'a option" where
  "elem_at xs k = (if 0 \<le> k \<and> k < int (length xs) then Some (xs ! nat k) else None)"

text \<open>A field of a destructured row with its default \<^verbatim>\<open>''\<close>.\<close>

definition field_or_empty :: "string list \<Rightarrow> nat \<Rightarrow> string" where
  "field_or_empty fields k = (case elem_at fields (int k) of Some f \<Rightarrow> f | None \<Rightarrow> [])"

text \<open>The decimal numeral a template literal prints for an integer.\<close>

fun digits :: "nat \<Rightarrow> string" where
  "digits n =
     (if n < 10 then [''0123456789'' ! n]
      else digits (n div 10) @ [''0123456789'' ! (n mod 10)])"

declare digits.simps [simp del]

definition show_int :: "int \<Rightarrow> string" where
  "show_int k = (if k < 0 then CHR ''-'' # digits (nat (- k)) else digits (nat k))"

text \<open>\<^verbatim>\<open>Array.prototype.sort(cmp)\<close>: the sort is stable, and for a comparator that is a
  consistent ordering the result is the stable insertion sort below.\<close>

fun insort_cmp :: "('a \<Rightarrow> 'a \<Rightarrow> 'b::{zero,linorder}) \<Rightarrow> 'a \<Rightarrow> 'a list \<Rightarrow> 'a list" where
  "insort_cmp cmp x [] = [x]"
| "insort_cmp cmp x (y # ys) =
     (if cmp x y \<le> 0 then x # y # ys else y # insort_cmp cmp x ys)"

definition sort_cmp :: "('a \<Rightarrow> 'a \<Rightarrow> 'b::{zero,linorder}) \<Rightarrow> 'a list \<Rightarrow> 'a list" where
  "sort_cmp cmp xs = foldr (insort_cmp cmp) xs []"

text \<open>A loop whose body may throw.\<close>

fun fold_err :: "('a \<Rightarrow> 's \<Rightarrow> 'e + 's) \<Rightarrow> 'a list \<Rightarrow> 's \<Rightarrow> 'e + 's" where
  "fold_err f [] s = Inr s"
| "fold_err f (x # xs) s = (case f x s of Inl e \<Rightarrow> Inl e | Inr s' \<Rightarrow> fold_err f xs s')"

subsection \<open>Data model\<close>

type_synonym addr = nat

text \<open>A Branch object (\<^verbatim>\<open>new_branch\<close>); the field \<^verbatim>\<open>id\<close> is \<open>id'\<close> here, and the
  constant field \<^verbatim>\<open>type: 'branch'\<close> is read off the constructor \<open>BranchRef\<close> of a
  reference.\<close>

record Branch =
  name :: string
  color :: "string option"
  remote_name :: "string option"
  tracking_remote_name :: "string option"
  id' :: string
  inferred :: bool

text \<open>A reference of a commit: a Branch object (by address), or a tag or stash object
  \<^verbatim>\<open>{ id, name, color, type }\<close>.\<close>

datatype ref_type = branch_type | tag_type | stash_type

record RefObject =
  obj_id :: string
  obj_name :: string
  obj_color :: "string option"
  obj_type :: ref_type

datatype GitRef = PlainRef RefObject | BranchRef addr

text \<open>A VisLine object. The cell shapes always give \<^verbatim>\<open>x0\<close> and \<^verbatim>\<open>xn\<close>; every other
  field may be absent.\<close>

record VisLine =
  x0 :: real
  xn :: real
  y0 :: "real option"
  yn :: "real option"
  xcs :: "real option"
  ycs :: "real option"
  xce :: "real option"
  yce :: "real option"
  branch :: "addr option"

text \<open>A cell of \<^verbatim>\<open>vis\<close>: \<^verbatim>\<open>{ char, branch }\<close>.\<close>

record vis_cell =
  vis_char :: char
  vis_branch :: "addr option"

text \<open>A Commit object; \<^verbatim>\<open>i\<close> is \<open>commit_i\<close>, \<^verbatim>\<open>branch\<close> is \<open>commit_branch\<close>, and an
  absent \<^verbatim>\<open>merge\<close> is \<open>False\<close>. \<open>vis_lines\<close> holds addresses of VisLine objects.\<close>

record Commit =
  commit_i :: nat
  vis_lines :: "addr list"
  commit_branch :: "addr option"
  hash_long :: string
  hash :: string
  author_name :: string
  author_email :: string
  datetime :: string
  refs :: "GitRef list"
  subject :: string
  merge :: bool

datatype error =
  Could_not_parse nat
| TypeError string

text \<open>The variables of \<^verbatim>\<open>parse\<close> that outlive a row, with the two object stores and the
  log of \<^verbatim>\<open>console.warn\<close> (ref id and commit hash of each warning).\<close>

record state =
  branch_store :: "Branch list"
  branches :: "addr list"
  line_store :: "VisLine list"
  commits :: "Commit list"
  last_vis :: "vis_cell list"
  densened_vis_line_by_branch_id :: "(string \<times> addr) list"
  last_densened_vis_line_by_branch_id :: "(string \<times> addr) list"
  xn_by_branch_id :: "(string \<times> real) list"
  warnings :: "(string \<times> string) list"

definition init_state :: state where
  "init_state = \<lparr>branch_store = [], branches = [], line_store = [], commits = [],
     last_vis = [], densened_vis_line_by_branch_id = [],
     last_densened_vis_line_by_branch_id = [], xn_by_branch_id = [], warnings = []\<rparr>"

subsection \<open>The branch registry\<close>

text \<open>\<^verbatim>\<open>new_branch\<close>: a fresh Branch object, pushed on \<^verbatim>\<open>branches\<close>. A remote name that
  is absent or empty is falsy, and then the id is the name.\<close>

definition new_branch :: "string \<Rightarrow> string option \<Rightarrow> string option \<Rightarrow> state \<Rightarrow> addr \<times> state" where
  "new_branch branch_name remote tracking s =
     (let b = \<lparr>name = branch_name, color = None, remote_name = remote,
                tracking_remote_name = tracking,
                id' = (case remote of
                         Some r \<Rightarrow> if r \<noteq> [] then r @ ''/'' @ branch_name else branch_name
                       | None \<Rightarrow> branch_name),
                inferred = False\<rparr>
      in (length (branch_store s),
          s\<lparr>branch_store := branch_store s @ [b],
            branches := branches s @ [length (branch_store s)]\<rparr>))"

text \<open>One line of \<^verbatim>\<open>branch_data\<close>. When the line has no second field, \<^verbatim>\<open>ref_name\<close> is
  \<^verbatim>\<open>undefined\<close> and reading \<^verbatim>\<open>ref_name.startsWith\<close> throws a TypeError.\<close>

definition add_branch_line :: "string \<Rightarrow> string \<Rightarrow> state \<Rightarrow> error + state" where
  "add_branch_line separator branch_line s =
     (let fields = js_split branch_line separator in
      case elem_at fields 1 of
        None \<Rightarrow> Inl (TypeError ''startsWith'')
      | Some ref_name \<Rightarrow>
          if startsWith ref_name ''refs/heads/''
          then Inr (snd (new_branch (drop 11 ref_name) None (elem_at fields 0) s))
          else (case js_split (drop 13 ref_name) ''/'' of
                  [] \<Rightarrow> Inr (snd (new_branch [] None None s))
                | remote # remote_branch_name_parts \<Rightarrow>
                    Inr (snd (new_branch (join ''/'' remote_branch_name_parts) (Some remote) None s))))"

definition build_branches :: "string \<Rightarrow> string \<Rightarrow> error + state" where
  "build_branches branch_data separator =
     (case fold_err (add_branch_line separator) (js_split branch_data [CHR 0x0A]) init_state of
        Inl e \<Rightarrow> Inl e
      | Inr s \<Rightarrow> Inr (snd (new_branch ''HEAD'' None None s)))"

subsection \<open>References of a commit\<close>

text \<open>\<^verbatim>\<open>git_ref_sort\<close>: the comparator reads only the ids of its two arguments.\<close>

definition git_ref_sort :: "string \<Rightarrow> string \<Rightarrow> int" where
  "git_ref_sort a_id b_id =
     (let a_is_tag = startsWith a_id ''tag: '';
          b_is_tag = startsWith b_id ''tag: '';
          c1 = of_bool (a_is_tag \<or> \<not> startsWith a_id ''refs/'')
               - of_bool (b_is_tag \<or> \<not> startsWith b_id ''refs/'');
          c2 = of_bool b_is_tag - of_bool a_is_tag;
          c3 = indexOf a_id CHR ''/'' - indexOf b_id CHR ''/''
      in if c1 \<noteq> 0 then c1 else if c2 \<noteq> 0 then c2 else c3)"

definition id_of_ref :: "Branch list \<Rightarrow> GitRef \<Rightarrow> string" where
  "id_of_ref bs r = (case r of PlainRef obj \<Rightarrow> obj_id obj | BranchRef a \<Rightarrow> id' (bs ! a))"

definition type_of_ref :: "GitRef \<Rightarrow> ref_type" where
  "type_of_ref r = (case r of PlainRef obj \<Rightarrow> obj_type obj | BranchRef a \<Rightarrow> branch_type)"

definition sort_refs :: "Branch list \<Rightarrow> GitRef list \<Rightarrow> GitRef list" where
  "sort_refs bs rs = sort_cmp (\<lambda>a b. git_ref_sort (id_of_ref bs a) (id_of_ref bs b)) rs"

text \<open>Modelled from the spec: \<^verbatim>\<open>is_branch\<close> and \<^verbatim>\<open>is_truthy\<close> are imported from
  \<^verbatim>\<open>./types\<close>, which is not among the sources. A ref is a branch when it is
  branch-typed; a string is truthy when it is not empty, an object when it is
  defined.\<close>

definition is_branch :: "GitRef \<Rightarrow> bool" where
  "is_branch r = (type_of_ref r = branch_type)"

definition is_truthy :: "string \<Rightarrow> bool" where
  "is_truthy r = (r \<noteq> [])"

text \<open>The names in \<^verbatim>\<open>refs_csv\<close>: the target of \<^verbatim>\<open>a -> b\<close>, without the stash marker and
  without empty names.\<close>

definition ref_names :: "string \<Rightarrow> string list" where
  "ref_names refs_csv =
     filter is_truthy
       (filter (\<lambda>r. r \<noteq> ''refs/stash'')
          (map (\<lambda>r. case elem_at (js_split r '' -> '') 1 of
                       Some t \<Rightarrow> if t \<noteq> [] then t else r
                     | None \<Rightarrow> r)
               (js_split refs_csv '', '')))"

definition resolve_ref :: "state \<Rightarrow> string \<Rightarrow> GitRef option" where
  "resolve_ref s r =
     (if startsWith r ''tag: ''
      then Some (PlainRef \<lparr>obj_id = r, obj_name = drop 5 r, obj_color = None, obj_type = tag_type\<rparr>)
      else (case find (\<lambda>a. r = id' (branch_store s ! a)) (branches s) of
              Some a \<Rightarrow> Some (BranchRef a)
            | None \<Rightarrow> None))"

text \<open>The refs of a row, sorted; a name that is neither a tag nor a registered branch
  is dropped with a warning.\<close>

definition resolve_refs :: "string \<Rightarrow> string \<Rightarrow> state \<Rightarrow> GitRef list \<times> state" where
  "resolve_refs refs_csv h s =
     (let names = ref_names refs_csv in
      (sort_refs (branch_store s)
         (concat (map (\<lambda>r. case resolve_ref s r of Some g \<Rightarrow> [g] | None \<Rightarrow> []) names)),
       s\<lparr>warnings := warnings s @ map (\<lambda>r. (r, h)) (filter (\<lambda>r. resolve_ref s r = None) names)\<rparr>))"

text \<open>\<^verbatim>\<open>refs.filter(is_branch)[0]\<close>.\<close>

definition branch_tip_of :: "GitRef list \<Rightarrow> addr option" where
  "branch_tip_of rs =
     (case filter is_branch rs of
        BranchRef a # _ \<Rightarrow> Some a
      | _ \<Rightarrow> None)"

subsection \<open>Owner of a cell\<close>

text \<open>The neighbours a cell at column \<open>i\<close> looks at: \<^verbatim>\<open>last_vis[i]\<close>, \<^verbatim>\<open>last_vis[i - 1]\<close>,
  \<^verbatim>\<open>vis_chars[i - 1]\<close>, \<^verbatim>\<open>last_vis[i + 1]\<close>, \<^verbatim>\<open>last_vis[i + 2]\<close>, \<^verbatim>\<open>vis[i + 1]\<close> and
  \<^verbatim>\<open>vis[i + 2]\<close>.\<close>

record neighbours =
  v_n :: "vis_cell option"
  v_nw :: "vis_cell option"
  v_w_char :: "char option"
  v_ne :: "vis_cell option"
  v_nee :: "vis_cell option"
  v_e :: "vis_cell option"
  v_ee :: "vis_cell option"

text \<open>\<^verbatim>\<open>v?.char === c\<close> and \<^verbatim>\<open>v?.branch\<close>.\<close>

definition char_is :: "vis_cell option \<Rightarrow> char \<Rightarrow> bool" where
  "char_is v c = (case v of Some cell \<Rightarrow> vis_char cell = c | None \<Rightarrow> False)"

definition branch_of :: "vis_cell option \<Rightarrow> addr option" where
  "branch_of v = (case v of Some cell \<Rightarrow> vis_branch cell | None \<Rightarrow> None)"

text \<open>A cell shape \<^verbatim>\<open>{ x0, xn }\<close>.\<close>

definition shape :: "real \<Rightarrow> real \<Rightarrow> VisLine" where
  "shape a b = \<lparr>x0 = a, xn = b, y0 = None, yn = None, xcs = None, ycs = None,
     xce = None, yce = None, branch = None\<rparr>"

text \<open>\<^verbatim>\<open>v_branch.inferred = true\<close>.\<close>

definition set_inferred :: "addr \<Rightarrow> state \<Rightarrow> state" where
  "set_inferred a s = s\<lparr>branch_store := (branch_store s)[a := (branch_store s ! a)\<lparr>inferred := True\<rparr>]\<rparr>"

text \<open>The loop that repairs the committed lines of a wrongly guessed branch:
  \<open>repoint wrong_branch v_branch cs (k + 1) ls\<close> is the loop at index \<open>k\<close>; it ends at the
  first commit without a matching line, or below index \<open>0\<close>.\<close>

fun repoint :: "addr \<Rightarrow> addr \<Rightarrow> Commit list \<Rightarrow> nat \<Rightarrow> VisLine list \<Rightarrow> VisLine list" where
  "repoint wrong_branch v_branch cs 0 ls = ls"
| "repoint wrong_branch v_branch cs (Suc k) ls =
     (let wrong_branch_matches =
            filter (\<lambda>a. branch (ls ! a) = Some wrong_branch) (vis_lines (cs ! k))
      in if wrong_branch_matches = [] then ls
         else repoint wrong_branch v_branch cs k
                (fold (\<lambda>a l. l[a := (l ! a)\<lparr>branch := Some v_branch\<rparr>]) wrong_branch_matches ls))"

text \<open>\<^verbatim>\<open>branches.splice(branches.indexOf(wrong_branch), 1)\<close>: the first occurrence goes;
  when there is none, \<^verbatim>\<open>indexOf\<close> is \<open>-1\<close> and \<^verbatim>\<open>splice(-1, 1)\<close> drops the last element.\<close>

definition splice_index_of :: "addr list \<Rightarrow> addr \<Rightarrow> addr list" where
  "splice_index_of bs a = (if a \<in> set bs then remove1 a bs else butlast bs)"

definition fix_wrong_branch :: "addr \<Rightarrow> addr \<Rightarrow> state \<Rightarrow> state" where
  "fix_wrong_branch wrong_branch v_branch s =
     s\<lparr>line_store := repoint wrong_branch v_branch (commits s) (length (commits s)) (line_store s),
       branches := splice_index_of (branches s) wrong_branch\<rparr>"

text \<open>\<^verbatim>\<open>case '*'\<close>: the owner of a commit cell.\<close>

definition case_star :: "addr option \<Rightarrow> neighbours \<Rightarrow> state \<Rightarrow> addr option \<times> state" where
  "case_star branch_tip nb s =
     (case branch_tip of
        Some tip \<Rightarrow>
          (if char_is (v_nw nb) backslash
           then (case branch_of (v_nw nb) of
                   Some wrong_branch \<Rightarrow> (Some tip, fix_wrong_branch wrong_branch tip s)
                 | None \<Rightarrow> (Some tip, s))
           else (Some tip, s))
      | None \<Rightarrow>
          if branch_of (v_n nb) \<noteq> None then (branch_of (v_n nb), s)
          else if char_is (v_nw nb) backslash then (branch_of (v_nw nb), s)
          else if char_is (v_ne nb) CHR ''/'' then (branch_of (v_ne nb), s)
          else (case new_branch (''inferred~'' @ show_int (int (length (branches s)) - 1)) None None s of
                  (a, s') \<Rightarrow> (Some a, set_inferred a s')))"

text \<open>The shape of a commit cell: the line starts at half height when the cell above is
  absent or blank.\<close>

definition star_shape :: "neighbours \<Rightarrow> VisLine" where
  "star_shape nb =
     (if (case v_n nb of None \<Rightarrow> True | Some cell \<Rightarrow> vis_char cell = CHR '' '')
      then (shape 0.5 0.5)\<lparr>y0 := Some 0.5\<rparr>
      else shape 0.5 0.5)"

text \<open>\<^verbatim>\<open>case '|'\<close>.\<close>

definition case_pipe :: "neighbours \<Rightarrow> addr option" where
  "case_pipe nb =
     (if branch_of (v_n nb) \<noteq> None then branch_of (v_n nb)
      else if char_is (v_nw nb) backslash then branch_of (v_nw nb)
      else if char_is (v_ne nb) CHR ''/'' then branch_of (v_ne nb)
      else None)"

text \<open>\<^verbatim>\<open>case '/'\<close>.\<close>

definition case_slash :: "neighbours \<Rightarrow> addr option" where
  "case_slash nb =
     (if char_is (v_ne nb) CHR ''*'' then branch_of (v_ne nb)
      else if char_is (v_ne nb) CHR ''|'' then
        (if char_is (v_nee nb) CHR ''/'' \<or> char_is (v_nee nb) CHR ''_''
         then branch_of (v_nee nb)
         else branch_of (v_ne nb))
      else if char_is (v_ne nb) CHR ''/'' then branch_of (v_ne nb)
      else if char_is (v_n nb) backslash \<or> char_is (v_n nb) CHR ''|'' then branch_of (v_n nb)
      else None)"

subsection \<open>The merge marker\<close>

abbreviation quote :: char where
  "quote \<equiv> CHR 0x27"

text \<open>The regular expression
  \<^verbatim>\<open>/^Merge (?:(?:remote[ -]tracking )?branch '([^ ]+)'.*)|(?:pull request #[0-9]+ from (.+))$/\<close>
  has two alternatives. The first is anchored at the start of the subject; its group is
  the longest run of characters other than a space that a quote follows.\<close>

definition quoted_name :: "string \<Rightarrow> string option" where
  "quoted_name run =
     (let after = length (takeWhile (\<lambda>c. c \<noteq> quote) (rev run)) in
      if after < length run \<and> 1 \<le> length run - 1 - after
      then Some (take (length run - 1 - after) run)
      else None)"

definition merge_branch_match :: "string \<Rightarrow> string option" where
  "merge_branch_match subj =
     (if startsWith subj ''Merge '' then
        (let r1 = drop 6 subj;
             r2 = (if startsWith r1 ''remote tracking '' \<or> startsWith r1 ''remote-tracking ''
                   then drop 16 r1 else r1)
         in if startsWith r2 (''branch '' @ [quote])
            then quoted_name (takeWhile (\<lambda>c. c \<noteq> CHR '' '') (drop 8 r2))
            else None)
      else None)"

text \<open>The second alternative is anchored at the end of the subject only, so it is tried
  at every position from the left; \<^verbatim>\<open>.\<close> matches no line terminator.\<close>

definition is_digit :: "char \<Rightarrow> bool" where
  "is_digit c = (c \<in> set ''0123456789'')"

definition pull_request_at :: "string \<Rightarrow> string option" where
  "pull_request_at t =
     (if startsWith t ''pull request #'' then
        (let q = drop 14 t; ds = takeWhile is_digit q; r = drop (length ds) q in
         if ds \<noteq> [] \<and> startsWith r '' from '' \<and> drop 6 r \<noteq> []
            \<and> CHR 0x0A \<notin> set (drop 6 r) \<and> CHR 0x0D \<notin> set (drop 6 r)
         then Some (drop 6 r) else None)
      else None)"

fun pull_request_match :: "string \<Rightarrow> string option" where
  "pull_request_match [] = None"
| "pull_request_match (c # cs) =
     (case pull_request_at (c # cs) of
        Some path \<Rightarrow> Some path
      | None \<Rightarrow> pull_request_match cs)"

text \<open>\<^verbatim>\<open>subject_merge_match[1] || subject_merge_match[2]\<close> of a subject that matches.\<close>

definition subject_merge_match :: "string \<Rightarrow> string option" where
  "subject_merge_match subj =
     (case merge_branch_match subj of
        Some nm \<Rightarrow> Some nm
      | None \<Rightarrow> pull_request_match subj)"

text \<open>\<^verbatim>\<open>last_commit.merge = true\<close> on \<^verbatim>\<open>commits.at(-1)\<close>, when there is a commit.\<close>

definition flag_last_commit :: "Commit list \<Rightarrow> Commit list" where
  "flag_last_commit cs = (if cs = [] then [] else butlast cs @ [(last cs)\<lparr>merge := True\<rparr>])"

text \<open>A backslash right of a \<open>|\<close>: the last commit is a merge, and the merged branch
  gets an inferred identity.\<close>

definition merge_marker :: "state \<Rightarrow> addr option \<times> state" where
  "merge_marker s =
     (let counter = show_int (int (length (branches s)) - 1);
          s1 = s\<lparr>commits := flag_last_commit (commits s)\<rparr>;
          created =
            (case (if commits s = [] then None else subject_merge_match (subject (last (commits s)))) of
               Some captured \<Rightarrow>
                 (let branch_id = captured @ ''~'' @ counter;
                      split = js_split branch_id ''/''
                  in if split \<noteq> []
                     then new_branch (last split) (Some (join ''/'' (butlast split))) None s1
                     else new_branch branch_id None None s1)
             | None \<Rightarrow> new_branch (''~'' @ counter) None None s1)
      in (Some (fst created), set_inferred (fst created) (snd created)))"

text \<open>The loop \<^verbatim>\<open>while ((w_char_match = last_vis[k])?.char === '-') k--\<close>:
  \<open>walk_dashes cells (k + 1)\<close> is the loop at index \<open>k\<close>, and \<open>None\<close> the value
  \<^verbatim>\<open>undefined\<close> it ends with outside the row.\<close>

fun walk_dashes :: "vis_cell list \<Rightarrow> nat \<Rightarrow> vis_cell option" where
  "walk_dashes cells 0 = None"
| "walk_dashes cells (Suc k) =
     (if k < length cells
      then (if vis_char (cells ! k) = CHR ''-'' then walk_dashes cells k else Some (cells ! k))
      else None)"

text \<open>\<^verbatim>\<open>case '\\'\<close>. Reading \<^verbatim>\<open>w_char_match.branch\<close> throws when the walk left the row. The
  source's last alternative repeats the test for \<open>.\<close> and is never reached.\<close>

definition case_backslash :: "nat \<Rightarrow> neighbours \<Rightarrow> state \<Rightarrow> error + (addr option \<times> state)" where
  "case_backslash i nb s =
     (if char_is (v_e nb) CHR ''|'' then Inr (branch_of (v_e nb), s)
      else if v_w_char nb = Some CHR ''|'' then Inr (merge_marker s)
      else if char_is (v_nw nb) CHR ''|'' \<or> char_is (v_nw nb) backslash
        then Inr (branch_of (v_nw nb), s)
      else if char_is (v_nw nb) CHR ''.'' \<or> char_is (v_nw nb) CHR ''-'' then
        (case walk_dashes (last_vis s) (i - 1) of
           None \<Rightarrow> Inl (TypeError ''branch'')
         | Some w_char_match \<Rightarrow> Inr (vis_branch w_char_match, s))
      else Inr (None, s))"

subsection \<open>The lines of a commit\<close>

text \<open>\<^verbatim>\<open>dict[key] = v\<close> on an association list.\<close>

definition dict_set :: "string \<Rightarrow> 'v \<Rightarrow> (string \<times> 'v) list \<Rightarrow> (string \<times> 'v) list" where
  "dict_set k v d =
     (if map_of d k = None then d @ [(k, v)]
      else map (\<lambda>kv. if fst kv = k then (k, v) else kv) d)"

text \<open>\<^verbatim>\<open>Object.entries\<close>: keys that are array indices (canonical decimal numerals below
  \<open>2^32 - 1\<close>) come first, in ascending order; then the other keys in insertion order.\<close>

definition numeral_value :: "string \<Rightarrow> nat" where
  "numeral_value k = foldl (\<lambda>n c. 10 * n + (of_char c - 48)) 0 k"

definition is_array_index :: "string \<Rightarrow> bool" where
  "is_array_index k =
     (k \<noteq> [] \<and> list_all is_digit k \<and> (k = ''0'' \<or> hd k \<noteq> CHR ''0'')
      \<and> numeral_value k < 4294967295)"

definition js_entries :: "(string \<times> 'v) list \<Rightarrow> (string \<times> 'v) list" where
  "js_entries d =
     sort_key (\<lambda>kv. numeral_value (fst kv)) (filter (\<lambda>kv. is_array_index (fst kv)) d)
     @ filter (\<lambda>kv. \<not> is_array_index (fst kv)) d"

text \<open>The end of the cell loop's body: the shape moves to column \<open>i\<close>; a branch that
  already has a line in this commit only gets a new end point, otherwise the shape
  becomes the branch's line (a fresh VisLine object).\<close>

definition accumulate :: "nat \<Rightarrow> addr \<Rightarrow> VisLine \<Rightarrow> state \<Rightarrow> state" where
  "accumulate i v_branch vis_line s =
     (let moved = vis_line\<lparr>x0 := x0 vis_line + real i, xn := xn vis_line + real i,
                            xcs := map_option (\<lambda>x. x + real i) (xcs vis_line),
                            xce := map_option (\<lambda>x. x + real i) (xce vis_line)\<rparr>;
          key = id' (branch_store s ! v_branch);
          s1 = (case map_of (densened_vis_line_by_branch_id s) key of
                  Some a \<Rightarrow>
                    s\<lparr>line_store := (line_store s)
                         [a := (line_store s ! a)\<lparr>xn := xn moved, xce := xce moved\<rparr>]\<rparr>
                | None \<Rightarrow>
                    s\<lparr>line_store := line_store s @ [moved\<lparr>branch := Some v_branch\<rparr>],
                      densened_vis_line_by_branch_id :=
                        densened_vis_line_by_branch_id s @ [(key, length (line_store s))]\<rparr>)
      in s1\<lparr>xn_by_branch_id := dict_set key (xn moved) (xn_by_branch_id s1)\<rparr>)"

text \<open>The \<^verbatim>\<open>switch\<close> on the cell's character: the owner and the shape. Blank cells and the
  rare connectors \<open>.\<close> and \<open>-\<close> have no owner and no shape.\<close>

definition resolve_cell ::
  "addr option \<Rightarrow> nat \<Rightarrow> char \<Rightarrow> neighbours \<Rightarrow> state \<Rightarrow> error + (addr option \<times> VisLine option \<times> state)" where
  "resolve_cell branch_tip i c nb s =
     (if c = CHR ''*'' then
        (case case_star branch_tip nb s of (b, s') \<Rightarrow> Inr (b, Some (star_shape nb), s'))
      else if c = CHR ''|'' then Inr (case_pipe nb, Some ((shape 0.5 0.5)\<lparr>yn := Some 0.5\<rparr>), s)
      else if c = CHR ''_'' then Inr (branch_of (v_ee nb), Some (shape 1 0), s)
      else if c = CHR ''/'' then Inr (case_slash nb, Some ((shape 1 (- 0.5))\<lparr>xce := Some 0.5\<rparr>), s)
      else if c = backslash then
        (case case_backslash i nb s of
           Inl e \<Rightarrow> Inl e
         | Inr (b, s') \<Rightarrow> Inr (b, Some (shape (- 0.5) 1), s'))
      else Inr (None, None, s))"

text \<open>One turn of the cell loop. The accumulator holds the state, the cells of \<^verbatim>\<open>vis\<close>
  right of column \<open>i\<close> (so \<^verbatim>\<open>vis[i + 1]\<close> is its head) and \<^verbatim>\<open>commit_branch\<close>.\<close>

definition process_cell ::
  "addr option \<Rightarrow> string \<Rightarrow> nat \<Rightarrow> state \<times> vis_cell list \<times> addr option
     \<Rightarrow> error + (state \<times> vis_cell list \<times> addr option)" where
  "process_cell branch_tip vis_chars i acc =
     (case acc of (s, vis, commit_branch_var) \<Rightarrow>
        (let c = vis_chars ! i;
             nb = \<lparr>v_n = elem_at (last_vis s) (int i),
                   v_nw = elem_at (last_vis s) (int i - 1),
                   v_w_char = elem_at vis_chars (int i - 1),
                   v_ne = elem_at (last_vis s) (int i + 1),
                   v_nee = elem_at (last_vis s) (int i + 2),
                   v_e = elem_at vis 0,
                   v_ee = elem_at vis 1\<rparr>
         in case resolve_cell branch_tip i c nb s of
              Inl e \<Rightarrow> Inl e
            | Inr (v_branch, vis_line, s1) \<Rightarrow>
                Inr ((case v_branch of
                        Some b \<Rightarrow> (case vis_line of Some l \<Rightarrow> accumulate i b l s1 | None \<Rightarrow> s1)
                      | None \<Rightarrow> s1),
                     \<lparr>vis_char = c, vis_branch = v_branch\<rparr> # vis,
                     (if c = CHR ''*'' then v_branch else commit_branch_var))))"

text \<open>Closing a commit: every accumulated line gets its defaults and its control
  points; a line whose branch also had a line in the previous commit is joined to
  that line.\<close>

definition upd :: "addr \<Rightarrow> (VisLine \<Rightarrow> VisLine) \<Rightarrow> VisLine list \<Rightarrow> VisLine list" where
  "upd a f ls = ls[a := f (ls ! a)]"

text \<open>The defaults of a line: \<^verbatim>\<open>y0\<close>, \<^verbatim>\<open>yn\<close>, \<^verbatim>\<open>xce\<close> and \<^verbatim>\<open>yce\<close>, each set only when it is
  absent.\<close>

definition line_defaults :: "real \<Rightarrow> VisLine \<Rightarrow> VisLine" where
  "line_defaults curve_radius v =
     (let v1 = (if y0 v = None then v\<lparr>y0 := Some 0\<rparr> else v);
          v2 = (if yn v1 = None then v1\<lparr>yn := Some 1\<rparr> else v1);
          v3 = (if xce v2 = None then v2\<lparr>xce := Some (xn v2)\<rparr> else v2)
      in if yce v3 = None then v3\<lparr>yce := Some (1 - curve_radius / 2)\<rparr> else v3)"

definition finalize_line ::
  "real \<Rightarrow> (string \<times> addr) list \<Rightarrow> string \<times> addr \<Rightarrow> VisLine list \<Rightarrow> VisLine list" where
  "finalize_line curve_radius last_densened entry ls =
     (case entry of (branch_id, a) \<Rightarrow>
        (let ls4 = upd a (line_defaults curve_radius) ls
         in case map_of last_densened branch_id of
              Some l \<Rightarrow>
                (let last_vis_line = ls4 ! l;
                     vis_line = ls4 ! a;
                     last_xce = x0 last_vis_line
                                + (xn last_vis_line - x0 last_vis_line) * (1 - curve_radius);
                     xcs_new = x0 vis_line + (xn vis_line - x0 vis_line) * curve_radius;
                     middle_x = (xcs_new + last_xce) / 2;
                     ls5 = upd l (\<lambda>v. v\<lparr>xn := middle_x, xce := Some last_xce,
                                          yce := Some (1 - curve_radius), yn := Some 1\<rparr>) ls4
                 in upd a (\<lambda>v. v\<lparr>x0 := middle_x, xcs := Some xcs_new, ycs := Some curve_radius\<rparr>) ls5)
            | None \<Rightarrow>
                upd a (\<lambda>v. (if xcs v = None
                            then v\<lparr>xcs := Some (if xn v > x0 v then x0 v + 1 else x0 v)\<rparr>
                            else v)\<lparr>ycs := Some curve_radius\<rparr>) ls4))"

text \<open>The key of the final sort of a commit's lines: \<^verbatim>\<open>(v.xcs || 0) + (v.xce || 0)\<close>.\<close>

definition curve_anchor :: "VisLine \<Rightarrow> real" where
  "curve_anchor v =
     (case xcs v of None \<Rightarrow> 0 | Some x \<Rightarrow> x) + (case xce v of None \<Rightarrow> 0 | Some x \<Rightarrow> x)"

definition close_commit :: "real \<Rightarrow> Commit \<Rightarrow> state \<Rightarrow> state" where
  "close_commit curve_radius c s =
     (let entries = js_entries (densened_vis_line_by_branch_id s);
          ls = fold (finalize_line curve_radius (last_densened_vis_line_by_branch_id s))
                 entries (line_store s)
      in s\<lparr>line_store := ls,
           commits := commits s
             @ [c\<lparr>vis_lines := sort_cmp (\<lambda>a b. curve_anchor (ls ! b) - curve_anchor (ls ! a))
                                   (map snd entries)\<rparr>],
           last_densened_vis_line_by_branch_id := densened_vis_line_by_branch_id s,
           densened_vis_line_by_branch_id := []\<rparr>)"

subsection \<open>Rows\<close>

definition graph_chars :: "char list" where
  "graph_chars = [CHR ''*'', backslash, CHR ''/'', CHR '' '', CHR ''_'', CHR ''|'', CHR ''-'', CHR ''.'']"

text \<open>The glyph prefix of a row, trimmed: \<^verbatim>\<open>vis_str.trimEnd().split('')\<close>.\<close>

definition vis_chars_of :: "string \<Rightarrow> string \<Rightarrow> string" where
  "vis_chars_of separator row = trimEnd (field_or_empty (js_split row separator) 0)"

text \<open>The body of the row loop. The row \<^verbatim>\<open>'... '\<close> is skipped; a glyph outside
  \<open>graph_chars\<close> throws the error that names the row.\<close>

definition parse_row :: "string \<Rightarrow> real \<Rightarrow> nat \<times> string \<Rightarrow> state \<Rightarrow> error + state" where
  "parse_row separator curve_radius numbered_row s =
     (case numbered_row of (row_no, row) \<Rightarrow>
        if row = ''... '' then Inr s
        else
          (let fields = js_split row separator;
               resolved = resolve_refs (field_or_empty fields 6) (field_or_empty fields 2) s;
               branch_tip = branch_tip_of (fst resolved);
               vis_chars = vis_chars_of separator row
           in if list_ex (\<lambda>v. v \<notin> set graph_chars) vis_chars then Inl (Could_not_parse row_no)
              else
                (case fold_err (process_cell branch_tip vis_chars) (rev [0..<length vis_chars])
                        (snd resolved, [], None) of
                   Inl e \<Rightarrow> Inl e
                 | Inr (s2, vis, commit_branch_var) \<Rightarrow>
                     Inr ((if field_or_empty fields 7 \<noteq> []
                           then close_commit curve_radius
                                  \<lparr>commit_i = row_no, vis_lines = [],
                                   commit_branch = commit_branch_var,
                                   hash_long = field_or_empty fields 1,
                                   hash = field_or_empty fields 2,
                                   author_name = field_or_empty fields 3,
                                   author_email = field_or_empty fields 4,
                                   datetime = take 19 (field_or_empty fields 5),
                                   refs = fst resolved,
                                   subject = field_or_empty fields 7,
                                   merge = False\<rparr> s2
                           else s2)\<lparr>last_vis := vis\<rparr>))))"

definition parse_rows :: "string \<Rightarrow> real \<Rightarrow> string list \<Rightarrow> state \<Rightarrow> error + state" where
  "parse_rows separator curve_radius rows s =
     fold_err (parse_row separator curve_radius) (enumerate 0 rows) s"

subsection \<open>Colours, the branch listing and stashes\<close>

text \<open>Modelled from the spec: the palette \<^verbatim>\<open>colors\<close> (\<^verbatim>\<open>./colors.js\<close>) and the string hash
  \<^verbatim>\<open>hashCode\<close> are not among the sources; they are parameters. Conventional names have
  fixed colours, every other name takes the palette entry at the hash modulo the
  palette size (JavaScript's remainder has the sign of the dividend).\<close>

definition js_rem :: "int \<Rightarrow> int \<Rightarrow> int" where
  "js_rem a b = sgn a * (\<bar>a\<bar> mod \<bar>b\<bar>)"

definition branch_color :: "string list \<Rightarrow> (string \<Rightarrow> int) \<Rightarrow> string \<Rightarrow> string option" where
  "branch_color colors hashCode nm =
     (if nm = ''master'' \<or> nm = ''main'' then Some ''#ff3333''
      else if nm = ''development'' \<or> nm = ''develop'' \<or> nm = ''dev'' then Some ''#009000''
      else if nm = ''stage'' \<or> nm = ''staging'' \<or> nm = ''production'' then Some ''#d7d700''
      else if colors = [] then None
      else elem_at colors \<bar>js_rem (hashCode nm) (int (length colors))\<bar>)"

definition assign_colors :: "string list \<Rightarrow> (string \<Rightarrow> int) \<Rightarrow> state \<Rightarrow> state" where
  "assign_colors colors hashCode s =
     s\<lparr>branch_store :=
         fold (\<lambda>a bs. bs[a := (bs ! a)\<lparr>color := branch_color colors hashCode (name (bs ! a))\<rparr>])
           (branches s) (branch_store s)\<rparr>"

text \<open>\<^verbatim>\<open>branches.filter((branch) => ! branch.inferred).sort(git_ref_sort).slice(0, 10000)\<close>.\<close>

definition list_branches :: "state \<Rightarrow> state" where
  "list_branches s =
     s\<lparr>branches :=
         take 10000
           (sort_cmp (\<lambda>a b. git_ref_sort (id' (branch_store s ! a)) (id' (branch_store s ! b)))
              (filter (\<lambda>a. \<not> inferred (branch_store s ! a)) (branches s)))\<rparr>"

text \<open>\<^verbatim>\<open>commits.find(...)\<close> as the index of the first match.\<close>

fun find_index :: "('a \<Rightarrow> bool) \<Rightarrow> 'a list \<Rightarrow> nat option" where
  "find_index P [] = None"
| "find_index P (x # xs) =
     (if P x then Some 0 else map_option Suc (find_index P xs))"

definition stash_ref :: "string \<Rightarrow> GitRef" where
  "stash_ref nm = PlainRef \<lparr>obj_id = nm, obj_name = nm, obj_color = Some ''#fff'', obj_type = stash_type\<rparr>"

text \<open>One line \<^verbatim>\<open><hash> <label>\<close> of \<^verbatim>\<open>stash_data\<close>.\<close>

definition attach_stash :: "string \<Rightarrow> Commit list \<Rightarrow> Commit list" where
  "attach_stash stash cs =
     (let split = js_split stash '' '' in
      case find_index (\<lambda>c. Some (hash c) = elem_at split 0) cs of
        Some k \<Rightarrow> cs[k := (cs ! k)\<lparr>refs := refs (cs ! k) @ [stash_ref (join '' '' (tl split))]\<rparr>]
      | None \<Rightarrow> cs)"

definition attach_stashes :: "string \<Rightarrow> state \<Rightarrow> state" where
  "attach_stashes stash_data s =
     s\<lparr>commits := fold attach_stash (js_split stash_data [CHR 0x0A]) (commits s)\<rparr>"

subsection \<open>\<^verbatim>\<open>parse\<close>\<close>

text \<open>The first half of \<^verbatim>\<open>parse\<close>: the branch registry, then the row loop.\<close>

definition scan :: "string \<Rightarrow> string \<Rightarrow> string \<Rightarrow> real \<Rightarrow> error + state" where
  "scan log_data branch_data separator curve_radius =
     (case build_branches branch_data separator of
        Inl e \<Rightarrow> Inl e
      | Inr s0 \<Rightarrow> parse_rows separator curve_radius (js_split log_data [CHR 0x0A]) s0)"

text \<open>The second half: colours, the listing, stashes.\<close>

definition finish :: "string list \<Rightarrow> (string \<Rightarrow> int) \<Rightarrow> string \<Rightarrow> state \<Rightarrow> state" where
  "finish colors hashCode stash_data s =
     attach_stashes stash_data (list_branches (assign_colors colors hashCode s))"

text \<open>The result \<^verbatim>\<open>{ commits, branches }\<close> is read off the final state, whose stores hold
  the objects the two lists refer to.\<close>

definition parse ::
  "string list \<Rightarrow> (string \<Rightarrow> int) \<Rightarrow> string \<Rightarrow> string \<Rightarrow> string \<Rightarrow> string \<Rightarrow> real \<Rightarrow> error + state" where
  "parse colors hashCode log_data branch_data stash_data separator curve_radius =
     (case scan log_data branch_data separator curve_radius of
        Inl e \<Rightarrow> Inl e
      | Inr s \<Rightarrow> Inr (finish colors hashCode stash_data s))"

subsection \<open>Inputs of the scenarios\<close>

definition SEP :: string where
  "SEP = [CHR 0x01]"

text \<open>A log row from its eight fields.\<close>

definition log_row :: "string list \<Rightarrow> string" where
  "log_row fs = join SEP fs"

definition scenario_A_log :: string where
  "scenario_A_log = log_row [''* '', ''aaaaaaa1234567'', ''aaaaaaa'', ''Alice'', ''a@x.com'',
     ''2021-03-02 15:59:43 +0100'', ''HEAD -> master'', ''Initial commit'']"

definition scenario_A_branches :: string where
  "scenario_A_branches = SEP @ ''refs/heads/master''"

text \<open>\<^verbatim>\<open>s.includes(sep)\<close>.\<close>

fun contains :: "string \<Rightarrow> string \<Rightarrow> bool" where
  "contains [] sep = (sep = [])"
| "contains (c # cs) sep = (startsWith (c # cs) sep \<or> contains cs sep)"

text \<open>The two tests of \<^verbatim>\<open>git_ref_sort\<close> on an id.\<close>

definition is_tag_id :: "string \<Rightarrow> bool" where
  "is_tag_id x = startsWith x ''tag: ''"

definition is_refs_path :: "string \<Rightarrow> bool" where
  "is_refs_path x = startsWith x ''refs/''"

text \<open>A commit without refs: its cell gets an inferred branch.\<close>

definition unnamed_commit_log :: string where
  "unnamed_commit_log = log_row [''* '', ''bbbbbbb1234567'', ''bbbbbbb'', ''Bob'', ''b@x.com'',
     ''2021-03-02 16:00:00 +0100'', [], ''wip'']"

text \<open>The commit that \<^verbatim>\<open>parse\<close> builds in Scenario A.\<close>

definition scenario_A_commit :: Commit where
  "scenario_A_commit = \<lparr>commit_i = 0, vis_lines = [0], commit_branch = Some 0,
     hash_long = ''aaaaaaa1234567'', hash = ''aaaaaaa'', author_name = ''Alice'',
     author_email = ''a@x.com'', datetime = ''2021-03-02 15:59:43'', refs = [BranchRef 0],
     subject = ''Initial commit'', merge = False\<rparr>"




subsection \<open>The order of refs in the words of the specification\<close>












text \<open>A merge: a commit whose subject is \<^verbatim>\<open>Merge branch 'feature'\<close>, and right after it the
  connector row with a backslash right of a \<open>|\<close>.\<close>

definition merge_log :: string where
  "merge_log =
     log_row [''*   '', ''eeeeeee1234567'', ''eeeeeee'', ''Erin'', ''e@x.com'',
       ''2021-03-05 10:00:00 +0100'', ''HEAD -> master'', ''Merge branch '' @ [quote] @ ''feature'' @ [quote]]
     @ [CHR 0x0A] @ ''|'' @ [backslash] @ ''  ''"

text \<open>The state after the commit row of \<open>merge_log\<close>, and the neighbours of the backslash
  in its connector row.\<close>

definition merge_state :: state where
  "merge_state =
     \<lparr>branch_store =
         [\<lparr>name = ''master'', color = None, remote_name = None,
             tracking_remote_name = Some [], id' = ''master'', inferred = False\<rparr>,
          \<lparr>name = ''HEAD'', color = None, remote_name = None,
             tracking_remote_name = None, id' = ''HEAD'', inferred = False\<rparr>],
         branches = [0, 1],
         line_store =
           [\<lparr>x0 = 1 / 2, xn = 1 / 2, y0 = Some (1 / 2), yn = Some 1,
               xcs = Some (1 / 2), ycs = Some (1 / 4), xce = Some (1 / 2),
               yce = Some (7 / 8), branch = Some 0\<rparr>],
         commits =
           [\<lparr>commit_i = 0, vis_lines = [0], commit_branch = Some 0,
               hash_long = ''eeeeeee1234567'', hash = ''eeeeeee'',
               author_name = ''Erin'', author_email = ''e@x.com'',
               datetime = ''2021-03-05 10:00:00'', refs = [BranchRef 0],
               subject =
                 ''Merge branch '' @ [quote] @ ''feature'' @ [quote],
               merge = False\<rparr>],
         last_vis = [\<lparr>vis_char = CHR ''*'', vis_branch = Some 0\<rparr>],
         densened_vis_line_by_branch_id = [],
         last_densened_vis_line_by_branch_id = [(''master'', 0)],
         xn_by_branch_id = [(''master'', 1 / 2)], warnings = []\<rparr>"

definition merge_neighbours :: neighbours where
  "merge_neighbours =
     \<lparr>v_n = None, v_nw = Some \<lparr>vis_char = CHR ''*'', vis_branch = Some 0\<rparr>,
         v_w_char = Some CHR ''|'', v_ne = None, v_nee = None, v_e = None,
         v_ee = None\<rparr>"

subsection \<open>The lines the repair reaches\<close>

text \<open>A commit refers to a branch when one of its lines does.\<close>

definition refers_to :: "addr \<Rightarrow> VisLine list \<Rightarrow> Commit \<Rightarrow> bool" where
  "refers_to b ls c = list_ex (\<lambda>a. branch (ls ! a) = Some b) (vis_lines c)"

text \<open>The commits the backward scan visits: from the most recent one back, as long as
  each refers to the branch; and the addresses of their lines.\<close>

definition scanned_commits :: "addr \<Rightarrow> VisLine list \<Rightarrow> Commit list \<Rightarrow> Commit list" where
  "scanned_commits b ls cs = takeWhile (refers_to b ls) (rev cs)"

definition scanned_lines :: "addr \<Rightarrow> VisLine list \<Rightarrow> Commit list \<Rightarrow> addr set" where
  "scanned_lines b ls cs = set (concat (map vis_lines (scanned_commits b ls cs)))"

text \<open>A merge whose second parent is committed before its tip is named: the backslash of
  the third row belongs to the inferred branch, and the tip \<^verbatim>\<open>feature\<close> of the fourth row
  stands right below it.\<close>

definition two_branches :: string where
  "two_branches = SEP @ ''refs/heads/master'' @ [CHR 0x0A] @ SEP @ ''refs/heads/feature''"

definition repair_log :: string where
  "repair_log =
     log_row [''*   '', ''eeeeeee1234567'', ''eeeeeee'', ''Erin'', ''e@x.com'',
       ''2021-03-05 10:00:00 +0100'', ''HEAD -> master'', ''Merge branch '' @ [quote] @ ''feature'' @ [quote]]
     @ [CHR 0x0A] @ ''|'' @ [backslash] @ ''  '' @ [CHR 0x0A]
     @ log_row [''* '' @ [backslash] @ '' '', ''fffffff1234567'', ''fffffff'', ''Erin'', ''e@x.com'',
       ''2021-03-04 10:00:00 +0100'', [], ''Work on master'']
     @ [CHR 0x0A]
     @ log_row [''|  * '', ''aaaaaaa1234567'', ''aaaaaaa'', ''Alice'', ''a@x.com'',
       ''2021-03-03 10:00:00 +0100'', ''feature'', ''Work on feature'']"

text \<open>The state after the first three rows of \<open>repair_log\<close>, and the neighbours of the
  commit cell of the fourth row.\<close>

definition repair_state :: state where
  "repair_state =
     \<lparr>branch_store =
         [\<lparr>name = ''master'', color = None, remote_name = None,
             tracking_remote_name = Some [], id' = ''master'', inferred = False\<rparr>,
          \<lparr>name = ''feature'', color = None, remote_name = None,
             tracking_remote_name = Some [], id' = ''feature'',
             inferred = False\<rparr>,
          \<lparr>name = ''HEAD'', color = None, remote_name = None,
             tracking_remote_name = None, id' = ''HEAD'', inferred = False\<rparr>,
          \<lparr>name = ''feature~2'', color = None, remote_name = Some [],
             tracking_remote_name = None, id' = ''feature~2'', inferred = True\<rparr>],
         branches = [0, 1, 2, 3],
         line_store =
           [\<lparr>x0 = 1 / 2, xn = 1 / 2, y0 = Some (1 / 2), yn = Some 1,
               xcs = Some (1 / 2), ycs = Some (1 / 4), xce = Some (1 / 2),
               yce = Some (3 / 4), branch = Some 0\<rparr>,
            \<lparr>x0 = 1 / 2, xn = 3, y0 = Some 0, yn = Some 1, xcs = Some (3 / 2),
               ycs = Some (1 / 4), xce = Some 3, yce = Some (7 / 8),
               branch = Some 3\<rparr>,
            \<lparr>x0 = 1 / 2, xn = 1 / 2, y0 = Some 0, yn = Some (1 / 2),
               xcs = Some (1 / 2), ycs = Some (1 / 4), xce = Some (1 / 2),
               yce = Some (7 / 8), branch = Some 0\<rparr>],
         commits =
           [\<lparr>commit_i = 0, vis_lines = [0], commit_branch = Some 0,
               hash_long = ''eeeeeee1234567'', hash = ''eeeeeee'',
               author_name = ''Erin'', author_email = ''e@x.com'',
               datetime = ''2021-03-05 10:00:00'', refs = [BranchRef 0],
               subject =
                 ''Merge branch '' @ [quote] @ ''feature'' @ [quote],
               merge = True\<rparr>,
            \<lparr>commit_i = 2, vis_lines = [1, 2], commit_branch = Some 0,
               hash_long = ''fffffff1234567'', hash = ''fffffff'',
               author_name = ''Erin'', author_email = ''e@x.com'',
               datetime = ''2021-03-04 10:00:00'', refs = [],
               subject = ''Work on master'', merge = False\<rparr>],
         last_vis =
           [\<lparr>vis_char = CHR ''*'', vis_branch = Some 0\<rparr>,
            \<lparr>vis_char = CHR '' '', vis_branch = None\<rparr>,
            \<lparr>vis_char = backslash, vis_branch = Some 3\<rparr>],
         densened_vis_line_by_branch_id = [],
         last_densened_vis_line_by_branch_id =
           [(''feature~2'', 1), (''master'', 2)],
         xn_by_branch_id = [(''master'', 1 / 2), (''feature~2'', 3)],
         warnings = []\<rparr>"

definition repair_neighbours :: neighbours where
  "repair_neighbours =
     \<lparr>v_n = None, v_nw = Some \<lparr>vis_char = backslash, vis_branch = Some 3\<rparr>,
         v_w_char = Some CHR '' '', v_ne = None, v_nee = None, v_e = None,
         v_ee = None\<rparr>"

text \<open>The result of \<^verbatim>\<open>parse\<close> on \<open>unnamed_commit_log\<close> (with an empty palette).\<close>

definition unnamed_commit_result :: state where
  "unnamed_commit_result =
     \<lparr>branch_store =
         [\<lparr>name = ''master'', color = Some ''#ff3333'', remote_name = None,
             tracking_remote_name = Some [], id' = ''master'', inferred = False\<rparr>,
          \<lparr>name = ''HEAD'', color = None, remote_name = None,
             tracking_remote_name = None, id' = ''HEAD'', inferred = False\<rparr>,
          \<lparr>name = ''inferred~1'', color = None, remote_name = None,
             tracking_remote_name = None, id' = ''inferred~1'',
             inferred = True\<rparr>],
         branches = [0, 1],
         line_store =
           [\<lparr>x0 = 1 / 2, xn = 1 / 2, y0 = Some (1 / 2), yn = Some 1,
               xcs = Some (1 / 2), ycs = Some (1 / 4), xce = Some (1 / 2),
               yce = Some (7 / 8), branch = Some 2\<rparr>],
         commits =
           [\<lparr>commit_i = 0, vis_lines = [0], commit_branch = Some 2,
               hash_long = ''bbbbbbb1234567'', hash = ''bbbbbbb'',
               author_name = ''Bob'', author_email = ''b@x.com'',
               datetime = ''2021-03-02 16:00:00'', refs = [], subject = ''wip'',
               merge = False\<rparr>],
         last_vis = [\<lparr>vis_char = CHR ''*'', vis_branch = Some 2\<rparr>],
         densened_vis_line_by_branch_id = [],
         last_densened_vis_line_by_branch_id = [(''inferred~1'', 0)],
         xn_by_branch_id = [(''inferred~1'', 1 / 2)], warnings = []\<rparr>"

subsection \<open>Well-formed states\<close>

text \<open>What the stores and the registry of a state of \<^verbatim>\<open>parse\<close> satisfy: the registry has no
  Branch object twice, and its addresses are in the store; each dictionary has every key
  once; no VisLine object belongs to two commits, or to a commit and the lines being
  accumulated, and all these addresses are in the store; the previous dictionary holds
  the VisLine objects of the last commit.\<close>

definition well_formed :: "state \<Rightarrow> bool" where
  "well_formed s =
     (distinct (branches s)
      \<and> list_all (\<lambda>b. b < length (branch_store s)) (branches s)
      \<and> distinct (map fst (densened_vis_line_by_branch_id s))
      \<and> distinct (map fst (last_densened_vis_line_by_branch_id s))
      \<and> distinct (concat (map vis_lines (commits s)) @ map snd (densened_vis_line_by_branch_id s))
      \<and> list_all (\<lambda>a. a < length (line_store s))
           (concat (map vis_lines (commits s)) @ map snd (densened_vis_line_by_branch_id s))
      \<and> distinct (map snd (last_densened_vis_line_by_branch_id s))
      \<and> set (map snd (last_densened_vis_line_by_branch_id s))
          = (if commits s = [] then {} else set (vis_lines (last (commits s)))))"



text \<open>A log in which the registry shrinks between two inferred branches: the backslash of
  the second row creates \<open>~2\<close>, the third row creates \<open>~3\<close> and then, at its commit cell,
  removes \<open>~2\<close>; the backslash of the fourth row numbers its branch by the registry
  size again.\<close>

definition reuse_log :: string where
  "reuse_log =
     log_row [''* '', ''aaaaaaa1234567'', ''aaaaaaa'', ''Alice'', ''a@x.com'',
       ''2021-03-05 10:00:00 +0100'', ''HEAD -> master'', ''First'']
     @ [CHR 0x0A] @ ''|'' @ [backslash] @ [CHR 0x0A]
     @ log_row [''| *|'' @ [backslash], ''bbbbbbb1234567'', ''bbbbbbb'', ''Bob'', ''b@x.com'',
       ''2021-03-04 10:00:00 +0100'', ''feature'', ''Second'']
     @ [CHR 0x0A] @ ''|'' @ [backslash]"

text \<open>A local branch named \<^verbatim>\<open>origin/x\<close> beside the remote branch \<^verbatim>\<open>x\<close> of \<^verbatim>\<open>origin\<close>.\<close>

definition same_id_branches :: string where
  "same_id_branches = SEP @ ''refs/heads/origin/x'' @ [CHR 0x0A] @ SEP @ ''refs/remotes/origin/x''"

section \<open>Properties\<close>

subsection \<open>The states of the scenarios are reached\<close>

lemma merge_state_reached:
  "parse_rows SEP 0.25 (take 1 (js_split merge_log [CHR 0x0A]))
     (projr (build_branches scenario_A_branches SEP)) = Inr merge_state"
  by code_simp

lemma merge_neighbours_eq:
  "merge_neighbours = \<lparr>v_n = None, v_nw = elem_at (last_vis merge_state) 0,
     v_w_char = Some CHR ''|'', v_ne = None, v_nee = None, v_e = None, v_ee = None\<rparr>"
  by (simp add: merge_neighbours_def merge_state_def elem_at_def)

lemma repair_state_reached:
  "parse_rows SEP 0.25 (take 3 (js_split repair_log [CHR 0x0A]))
     (projr (build_branches two_branches SEP)) = Inr repair_state"
  by code_simp

lemma repair_neighbours_eq:
  "repair_neighbours = \<lparr>v_n = elem_at (last_vis repair_state) 3,
     v_nw = elem_at (last_vis repair_state) 2, v_w_char = Some CHR '' '',
     v_ne = elem_at (last_vis repair_state) 4, v_nee = elem_at (last_vis repair_state) 5,
     v_e = None, v_ee = None\<rparr>"
  by (simp add: repair_neighbours_def repair_state_def elem_at_def)


lemma unnamed_commit_result_reached:
  "parse [] (\<lambda>_. 0) unnamed_commit_log scenario_A_branches [] SEP 0.25 = Inr unnamed_commit_result"
  by code_simp

subsection \<open>Scenario A\<close>


subsection \<open>Strings and loops\<close>

lemma startsWith_append: "startsWith s p \<longleftrightarrow> (\<exists>t. s = p @ t)"
  by (induction s p rule: startsWith.induct) auto


lemma split_on_no_sep: "\<not> contains s sep \<Longrightarrow> split_on sep s = [s]"
  by (induction sep s rule: split_on.induct) auto

lemma js_split_no_sep: "\<not> contains s sep \<Longrightarrow> js_split s sep = [s]"
  unfolding js_split_def using split_on_no_sep by (cases s) auto

text \<open>A loop stops with the error of the first element that throws.\<close>

lemma fold_err_Inl:
  assumes "x \<in> set xs" and "\<And>s. f x s = Inl e" and "\<And>y s e'. f y s = Inl e' \<Longrightarrow> e' = e"
  shows "fold_err f xs s = Inl e"
  using assms(1)
proof (induction xs arbitrary: s)
  case Nil
  then show ?case by simp
next
  case (Cons y ys)
  show ?case
  proof (cases "f y s")
    case (Inl e')
    then show ?thesis using assms(3) by simp
  next
    case (Inr s')
    then have "y \<noteq> x" using assms(2) by auto
    then show ?thesis using Cons Inr by simp
  qed
qed

subsection \<open>A line of \<^verbatim>\<open>branch_data\<close> without a ref name\<close>

lemma add_branch_line_error:
  "add_branch_line separator l s = Inl e \<Longrightarrow> e = TypeError ''startsWith''"
  by (auto simp: add_branch_line_def Let_def split: option.splits if_splits list.splits)

lemma add_branch_line_short:
  "length (js_split l separator) < 2 \<Longrightarrow> add_branch_line separator l s = Inl (TypeError ''startsWith'')"
  by (simp add: add_branch_line_def elem_at_def)

text \<open>C10. When some line of \<^verbatim>\<open>branch_data\<close> does not contain the separator, so that the
  line has no ref-name field, \<^verbatim>\<open>parse\<close> throws the TypeError of reading
  \<^verbatim>\<open>startsWith\<close> of \<^verbatim>\<open>undefined\<close>, whatever the other arguments are; the empty
  \<^verbatim>\<open>branch_data\<close> is such an input. The error is not the unknown-glyph error. Hence
  \<^verbatim>\<open>parse\<close> returns only if every line of \<^verbatim>\<open>branch_data\<close> has at least two fields.\<close>

theorem C10_missing_ref_name:
  "(l \<in> set (js_split branch_data [CHR 0x0A]) \<and> \<not> contains l separator
      \<longrightarrow> parse colors hashCode log_data branch_data stash_data separator curve_radius
            = Inl (TypeError ''startsWith''))
   \<and> parse colors hashCode log_data [] stash_data separator curve_radius
       = Inl (TypeError ''startsWith'')
   \<and> TypeError ''startsWith'' \<noteq> Could_not_parse row_no
   \<and> (parse colors hashCode log_data branch_data stash_data separator curve_radius = Inr out
      \<longrightarrow> (\<forall>l \<in> set (js_split branch_data [CHR 0x0A]). 2 \<le> length (js_split l separator)))"
proof -
  have short: "parse colors hashCode log_data bd stash_data separator curve_radius
       = Inl (TypeError ''startsWith'')"
    if "l' \<in> set (js_split bd [CHR 0x0A])" and "length (js_split l' separator) < 2" for l' bd
  proof -
    have "fold_err (add_branch_line separator) (js_split bd [CHR 0x0A]) init_state
        = Inl (TypeError ''startsWith'')"
      using that add_branch_line_short add_branch_line_error by (intro fold_err_Inl) auto
    then show ?thesis by (simp add: parse_def scan_def build_branches_def)
  qed
  have a: "parse colors hashCode log_data branch_data stash_data separator curve_radius
            = Inl (TypeError ''startsWith'')"
    if "l \<in> set (js_split branch_data [CHR 0x0A])" "\<not> contains l separator"
    using that short[of l branch_data] js_split_no_sep[of l separator] by simp
  have b: "parse colors hashCode log_data [] stash_data separator curve_radius
       = Inl (TypeError ''startsWith'')"
    using short[of "[]" "[]"] by (simp add: js_split_def)
  have c: "\<forall>l \<in> set (js_split branch_data [CHR 0x0A]). 2 \<le> length (js_split l separator)"
    if "parse colors hashCode log_data branch_data stash_data separator curve_radius = Inr out"
  proof (rule ccontr)
    assume "\<not> ?thesis"
    then obtain l' where "l' \<in> set (js_split branch_data [CHR 0x0A])"
      "length (js_split l' separator) < 2"
      by (auto simp: not_le)
    then show False using short that by simp
  qed
  show ?thesis using a b c by simp
qed

theorem C10_witness:
  "''refs/heads/master'' \<in> set (js_split ''refs/heads/master'' [CHR 0x0A])
   \<and> \<not> contains ''refs/heads/master'' SEP
   \<and> parse [] (\<lambda>_. 0) scenario_A_log ''refs/heads/master'' [] SEP 0.25
       = Inl (TypeError ''startsWith'')"
  using C10_missing_ref_name[of "''refs/heads/master''" "''refs/heads/master''" SEP "[]"
      "\<lambda>_. 0" scenario_A_log "[]" "0.25" 0 init_state]
  by (simp add: js_split_def SEP_def)

subsection \<open>Sorting with a comparator\<close>

lemma git_ref_sort_le:
  "git_ref_sort a b \<le> 0 \<longleftrightarrow>
     (let ka = (is_tag_id a \<or> \<not> is_refs_path a); kb = (is_tag_id b \<or> \<not> is_refs_path b) in
      (\<not> ka \<and> kb) \<or>
      (ka = kb \<and> ((is_tag_id a \<and> \<not> is_tag_id b) \<or>
                   (is_tag_id a = is_tag_id b \<and> indexOf a CHR ''/'' \<le> indexOf b CHR ''/''))))"
  unfolding is_tag_id_def is_refs_path_def
  by (cases "startsWith a ''tag: ''"; cases "startsWith b ''tag: ''";
      cases "startsWith a ''refs/''"; cases "startsWith b ''refs/''")
     (simp_all add: git_ref_sort_def)

lemma git_ref_sort_total: "git_ref_sort a b \<le> 0 \<or> git_ref_sort b a \<le> 0"
  unfolding git_ref_sort_le Let_def by (auto simp: linear)

lemma git_ref_sort_trans:
  "git_ref_sort a b \<le> 0 \<Longrightarrow> git_ref_sort b c \<le> 0 \<Longrightarrow> git_ref_sort a c \<le> 0"
  unfolding git_ref_sort_le Let_def by (elim disjE conjE; fastforce)

lemma set_insort_cmp: "set (insort_cmp cmp x ys) = insert x (set ys)"
  by (induction ys) auto

lemma set_sort_cmp: "set (sort_cmp cmp xs) = set xs"
  by (induction xs) (auto simp: sort_cmp_def set_insort_cmp)

lemma mset_insort_cmp: "mset (insort_cmp cmp x ys) = add_mset x (mset ys)"
  by (induction ys) auto

lemma mset_sort_cmp: "mset (sort_cmp cmp xs) = mset xs"
  by (induction xs) (auto simp: sort_cmp_def mset_insort_cmp)

lemma length_sort_cmp: "length (sort_cmp cmp xs) = length xs"
  using mset_sort_cmp[of cmp xs] by (metis size_mset)

lemma sorted_insort_cmp:
  assumes total: "\<And>a b. cmp a b \<le> 0 \<or> cmp b a \<le> 0"
    and trans: "\<And>a b c. cmp a b \<le> 0 \<Longrightarrow> cmp b c \<le> 0 \<Longrightarrow> cmp a c \<le> 0"
  shows "sorted_wrt (\<lambda>a b. cmp a b \<le> 0) ys
    \<Longrightarrow> sorted_wrt (\<lambda>a b. cmp a b \<le> 0) (insort_cmp cmp x ys)"
proof (induction ys)
  case Nil
  then show ?case by simp
next
  case (Cons y ys)
  show ?case
  proof (cases "cmp x y \<le> 0")
    case True
    then have "\<forall>z\<in>set ys. cmp x z \<le> 0" using Cons.prems trans by auto
    then show ?thesis using True Cons.prems by simp
  next
    case False
    then have "cmp y x \<le> 0" using total by blast
    then show ?thesis using False Cons by (auto simp: set_insort_cmp)
  qed
qed

lemma sorted_sort_cmp:
  assumes "\<And>a b. cmp a b \<le> 0 \<or> cmp b a \<le> 0"
    and "\<And>a b c. cmp a b \<le> 0 \<Longrightarrow> cmp b c \<le> 0 \<Longrightarrow> cmp a c \<le> 0"
  shows "sorted_wrt (\<lambda>a b. cmp a b \<le> 0) (sort_cmp cmp xs)"
proof (induction xs)
  case Nil
  then show ?case by (simp add: sort_cmp_def)
next
  case (Cons x xs)
  then show ?case using sorted_insort_cmp[of cmp "sort_cmp cmp xs" x] assms
    by (simp add: sort_cmp_def)
qed

lemma sorted_wrt_take: "sorted_wrt P xs \<Longrightarrow> sorted_wrt P (take n xs)"
  by (induction xs arbitrary: n) (auto simp: take_Cons' dest: in_set_takeD)

subsection \<open>Colours, listing and stashes leave the rest alone\<close>

lemma nth_update_same_field:
  assumes "\<And>b. f (g b) = f b"
  shows "f (bs[a := g (bs ! a)] ! j) = f (bs ! j)"
proof (cases "j = a \<and> a < length bs")
  case True
  then show ?thesis using assms by simp
next
  case False
  then show ?thesis by (cases "j = a") (simp_all add: list_update_beyond not_less)
qed

lemma nth_fold_update:
  assumes "\<And>b. f (g b) = f b"
  shows "f (fold (\<lambda>a bs. bs[a := g (bs ! a)]) as bs ! j) = f (bs ! j)"
proof (induction as arbitrary: bs)
  case Nil
  then show ?case by simp
next
  case (Cons a as)
  then show ?case using nth_update_same_field[of f g bs a j] assms by simp
qed

lemma length_fold_update: "length (fold (\<lambda>a bs. bs[a := g bs a]) as bs) = length bs"
  by (induction as arbitrary: bs) auto

lemma map_fold_update:
  assumes "\<And>b. f (g b) = f b"
  shows "map f (fold (\<lambda>a bs. bs[a := g (bs ! a)]) as bs) = map f bs"
  using nth_fold_update[of f g, OF assms] length_fold_update[of "\<lambda>bs a. g (bs ! a)" as bs]
  by (intro nth_equalityI) simp_all

lemma assign_colors_inferred:
  "inferred (branch_store (assign_colors colors hashCode s) ! a) = inferred (branch_store s ! a)"
  unfolding assign_colors_def
  using nth_fold_update[of inferred "\<lambda>b. b\<lparr>color := branch_color colors hashCode (name b)\<rparr>"]
  by simp

lemma assign_colors_id:
  "id' (branch_store (assign_colors colors hashCode s) ! a) = id' (branch_store s ! a)"
  unfolding assign_colors_def
  using nth_fold_update[of id' "\<lambda>b. b\<lparr>color := branch_color colors hashCode (name b)\<rparr>"]
  by simp

lemma finish_branches:
  "branches (finish colors hashCode stash_data s)
     = take 10000
         (sort_cmp (\<lambda>a b. git_ref_sort (id' (branch_store s ! a)) (id' (branch_store s ! b)))
            (filter (\<lambda>a. \<not> inferred (branch_store s ! a)) (branches s)))"
  by (simp add: finish_def attach_stashes_def list_branches_def assign_colors_inferred
      assign_colors_id) (simp add: assign_colors_def)

lemma finish_stores:
  "map inferred (branch_store (finish colors hashCode stash_data s)) = map inferred (branch_store s)"
  "map id' (branch_store (finish colors hashCode stash_data s)) = map id' (branch_store s)"
  "line_store (finish colors hashCode stash_data s) = line_store s"
  "warnings (finish colors hashCode stash_data s) = warnings s"
  "commits (finish colors hashCode stash_data s)
     = fold attach_stash (js_split stash_data [CHR 0x0A]) (commits s)"
  using map_fold_update[of inferred "\<lambda>b. b\<lparr>color := branch_color colors hashCode (name b)\<rparr>"]
    map_fold_update[of id' "\<lambda>b. b\<lparr>color := branch_color colors hashCode (name b)\<rparr>"]
  by (simp_all add: finish_def attach_stashes_def list_branches_def assign_colors_def)

lemma map_update_same: "(map f xs)[k := f (xs ! k)] = map f xs"
  by (cases "k < length xs") (simp_all add: list_update_same_conv list_update_beyond not_less)

lemma attach_stash_vis_lines: "map vis_lines (attach_stash l cs) = map vis_lines cs"
  by (auto simp: attach_stash_def Let_def map_update map_update_same split: option.splits)

lemma fold_attach_stash_vis_lines: "map vis_lines (fold attach_stash ls cs) = map vis_lines cs"
  by (induction ls arbitrary: cs) (simp_all add: attach_stash_vis_lines)

subsection \<open>The branches list\<close>

text \<open>C8. When \<^verbatim>\<open>parse\<close> returns, its branches list is the registry at the end of the row
  loop, without the branches flagged inferred, sorted with \<^verbatim>\<open>git_ref_sort\<close> and cut to
  10000 entries: it has at most 10000 entries, each a registered branch that is not
  inferred, all of them when they are at most 10000, in the comparator's order. The
  flags, the ids, the VisLine objects and the lines of the commits are those of the end
  of the row loop, so a line of a commit may still refer to an inferred branch that the
  list leaves out.\<close>

theorem C8_branch_listing:
  assumes "parse colors hashCode log_data branch_data stash_data separator curve_radius = Inr out"
  shows "\<exists>s. scan log_data branch_data separator curve_radius = Inr s
     \<and> branches out
         = take 10000
             (sort_cmp (\<lambda>a b. git_ref_sort (id' (branch_store s ! a)) (id' (branch_store s ! b)))
                (filter (\<lambda>a. \<not> inferred (branch_store s ! a)) (branches s)))
     \<and> length (branches out) \<le> 10000
     \<and> set (branches out) \<subseteq> {a \<in> set (branches s). \<not> inferred (branch_store s ! a)}
     \<and> (length (filter (\<lambda>a. \<not> inferred (branch_store s ! a)) (branches s)) \<le> 10000
          \<longrightarrow> mset (branches out) = mset (filter (\<lambda>a. \<not> inferred (branch_store s ! a)) (branches s)))
     \<and> sorted_wrt (\<lambda>a b. git_ref_sort (id' (branch_store s ! a)) (id' (branch_store s ! b)) \<le> 0)
          (branches out)
     \<and> map inferred (branch_store out) = map inferred (branch_store s)
     \<and> map id' (branch_store out) = map id' (branch_store s)
     \<and> line_store out = line_store s
     \<and> map vis_lines (commits out) = map vis_lines (commits s)"
proof -
  obtain s where s: "scan log_data branch_data separator curve_radius = Inr s"
    and out: "out = finish colors hashCode stash_data s"
    using assms by (auto simp: parse_def split: sum.splits)
  let ?cmp = "\<lambda>a b. git_ref_sort (id' (branch_store s ! a)) (id' (branch_store s ! b))"
  let ?keep = "filter (\<lambda>a. \<not> inferred (branch_store s ! a)) (branches s)"
  have b: "branches out = take 10000 (sort_cmp ?cmp ?keep)"
    using out finish_branches by simp
  have sorted: "sorted_wrt (\<lambda>a b. ?cmp a b \<le> 0) (sort_cmp ?cmp ?keep)"
    using git_ref_sort_total git_ref_sort_trans by (intro sorted_sort_cmp) blast+
  have sub: "set (branches out) \<subseteq> {a \<in> set (branches s). \<not> inferred (branch_store s ! a)}"
    using b set_sort_cmp[of ?cmp ?keep] set_take_subset[of 10000 "sort_cmp ?cmp ?keep"] by auto
  have all: "mset (branches out) = mset ?keep" if "length ?keep \<le> 10000"
    using b that by (simp add: length_sort_cmp mset_sort_cmp)
  show ?thesis
    using s b sub all sorted_wrt_take[OF sorted, of 10000] out
    by (intro exI[of _ s]) (simp add: finish_stores fold_attach_stash_vis_lines)
qed

theorem C8_witness:
  "parse [] (\<lambda>_. 0) unnamed_commit_log scenario_A_branches [] SEP 0.25 = Inr unnamed_commit_result
   \<and> length (branches unnamed_commit_result) \<le> 10000
   \<and> map (\<lambda>a. id' (branch_store unnamed_commit_result ! a)) (branches unnamed_commit_result)
       = [''master'', ''HEAD'']
   \<and> map (\<lambda>b. (id' b, inferred b)) (branch_store unnamed_commit_result)
       = [(''master'', False), (''HEAD'', False), (''inferred~1'', True)]
   \<and> map (\<lambda>c. map (\<lambda>a. branch (line_store unnamed_commit_result ! a)) (vis_lines c))
         (commits unnamed_commit_result) = [[Some 2]]"
proof -
  have len: "length (branches unnamed_commit_result) \<le> 10000"
    using C8_branch_listing[OF unnamed_commit_result_reached] by blast
  then show ?thesis
    using unnamed_commit_result_reached by (simp add: unnamed_commit_result_def)
qed

subsection \<open>Stashes\<close>

lemma split_on_char_prefix:
  "c \<notin> set h \<Longrightarrow> split_on [c] (h @ c # l) = h # split_on [c] l"
  by (induction h) auto

lemma join_Cons_Cons: "join sep ((d # a) # ws) = d # join sep (a # ws)"
  by (cases ws) auto

lemma join_split_on_char: "join [c] (split_on [c] l) = l"
proof (induction "[c]" l rule: split_on.induct)
  case 1
  then show ?case by simp
next
  case (2 d ds)
  show ?case
  proof (cases "d = c")
    case True
    then show ?thesis using 2 by (cases "split_on [c] ds") auto
  next
    case False
    then show ?thesis using 2 by (cases "split_on [c] ds") (auto simp: join_Cons_Cons)
  qed
qed

lemma find_index_Some:
  "find_index P xs = Some k \<longleftrightarrow> k < length xs \<and> P (xs ! k) \<and> (\<forall>j<k. \<not> P (xs ! j))"
proof (induction xs arbitrary: k)
  case Nil
  then show ?case by simp
next
  case (Cons x xs)
  show ?case
  proof (cases "P x")
    case True
    then show ?thesis by (cases k) auto
  next
    case False
    show ?thesis
    proof (cases k)
      case 0
      then show ?thesis using False by auto
    next
      case (Suc k')
      have "(\<forall>j<Suc k'. \<not> P ((x # xs) ! j)) \<longleftrightarrow> (\<forall>j<k'. \<not> P (xs ! j))"
        using False by (auto simp: less_Suc_eq_0_disj)
      then show ?thesis using False Suc Cons.IH[of k'] by auto
    qed
  qed
qed

lemma find_index_None: "find_index P xs = None \<longleftrightarrow> (\<forall>x\<in>set xs. \<not> P x)"
  by (induction xs) auto

lemma stash_line_fields:
  assumes "CHR '' '' \<notin> set h"
  shows "elem_at (js_split (h @ '' '' @ label) '' '') 0 = Some h"
    and "join '' '' (tl (js_split (h @ '' '' @ label) '' '')) = label"
  using assms split_on_char_prefix[of "CHR '' ''" h label] join_split_on_char[of "CHR '' ''" label]
  by (simp_all add: js_split_def elem_at_def)

text \<open>C9. For a line \<^verbatim>\<open><hash> <label>\<close> of \<^verbatim>\<open>stash_data\<close> (the hash without a space): the
  first commit whose \<^verbatim>\<open>hash\<close> is \<^verbatim>\<open><hash>\<close> gets the ref \<^verbatim>\<open>{name: label, id: label, type:
  stash, color: '#fff'}\<close> at the end of its refs, and nothing else changes; when no
  commit has that hash, the commits stay as they are. The stash step of \<^verbatim>\<open>parse\<close>
  applies this line by line, logs no warning and cannot throw.\<close>

theorem C9_stash_attach:
  "(CHR '' '' \<notin> set h \<longrightarrow>
      (k < length cs \<and> hash (cs ! k) = h \<and> (\<forall>j<k. hash (cs ! j) \<noteq> h)
         \<longrightarrow> attach_stash (h @ '' '' @ label) cs
              = cs[k := (cs ! k)\<lparr>refs := refs (cs ! k)
                     @ [PlainRef \<lparr>obj_id = label, obj_name = label, obj_color = Some ''#fff'',
                                  obj_type = stash_type\<rparr>]\<rparr>])
      \<and> ((\<forall>c\<in>set cs. hash c \<noteq> h) \<longrightarrow> attach_stash (h @ '' '' @ label) cs = cs))
   \<and> commits (finish colors hashCode stash_data s)
       = fold attach_stash (js_split stash_data [CHR 0x0A]) (commits s)
   \<and> warnings (finish colors hashCode stash_data s) = warnings s
   \<and> (scan log_data branch_data separator curve_radius = Inr s
        \<longrightarrow> parse colors hashCode log_data branch_data stash_data separator curve_radius
             = Inr (finish colors hashCode stash_data s))"
proof -
  have hit: "attach_stash (h @ '' '' @ label) cs
      = cs[k := (cs ! k)\<lparr>refs := refs (cs ! k) @ [stash_ref label]\<rparr>]"
    if "CHR '' '' \<notin> set h" "k < length cs" "hash (cs ! k) = h" "\<forall>j<k. hash (cs ! j) \<noteq> h"
  proof -
    have "find_index (\<lambda>c. Some (hash c) = Some h) cs = Some k"
      using that by (simp add: find_index_Some)
    then show ?thesis using stash_line_fields[OF that(1), of label]
      by (simp add: attach_stash_def)
  qed
  have miss: "attach_stash (h @ '' '' @ label) cs = cs"
    if "CHR '' '' \<notin> set h" "\<forall>c\<in>set cs. hash c \<noteq> h"
  proof -
    have "find_index (\<lambda>c. Some (hash c) = Some h) cs = None"
      using that by (simp add: find_index_None)
    then show ?thesis using stash_line_fields[OF that(1), of label]
      by (simp add: attach_stash_def)
  qed
  show ?thesis using hit miss
    by (simp add: finish_stores parse_def stash_ref_def)
qed

theorem C9_witness:
  "CHR '' '' \<notin> set ''aaaaaaa'' \<and> CHR '' '' \<notin> set ''fffffff''
   \<and> hash ([scenario_A_commit] ! 0) = ''aaaaaaa''
   \<and> attach_stash ''aaaaaaa WIP on master: first'' [scenario_A_commit]
       = [scenario_A_commit\<lparr>refs := [BranchRef 0,
            PlainRef \<lparr>obj_id = ''WIP on master: first'', obj_name = ''WIP on master: first'',
                       obj_color = Some ''#fff'', obj_type = stash_type\<rparr>]\<rparr>]
   \<and> attach_stash ''fffffff WIP on master: second'' [scenario_A_commit] = [scenario_A_commit]"
  using C9_stash_attach[where h = "''aaaaaaa''" and k = 0 and cs = "[scenario_A_commit]"
      and label = "''WIP on master: first''"]
    C9_stash_attach[where h = "''fffffff''" and k = 0 and cs = "[scenario_A_commit]"
      and label = "''WIP on master: second''"]
  by (simp add: scenario_A_commit_def)

subsection \<open>Unknown glyphs\<close>


lemma fold_err_error:
  assumes "\<And>x s e. f x s = Inl e \<Longrightarrow> P e"
  shows "fold_err f xs s = Inl e \<Longrightarrow> P e"
  by (induction xs arbitrary: s) (auto split: sum.splits dest: assms)





















subsection \<open>The order of sorted refs\<close>






subsection \<open>The merge marker\<close>







lemma startsWith_prefix [simp]: "startsWith (p @ t) p"
  by (simp add: startsWith_append)












subsection \<open>The retroactive repair\<close>

lemma fold_repoint_length:
  "length (fold (\<lambda>a l. l[a := (l ! a)\<lparr>branch := Some vb\<rparr>]) ms ls) = length ls"
  by (induction ms arbitrary: ls) auto

lemma fold_repoint_nth:
  "a < length ls \<Longrightarrow>
     fold (\<lambda>a l. l[a := (l ! a)\<lparr>branch := Some vb\<rparr>]) ms ls ! a
       = (if a \<in> set ms then (ls ! a)\<lparr>branch := Some vb\<rparr> else ls ! a)"
proof (induction ms arbitrary: ls)
  case Nil
  then show ?case by simp
next
  case (Cons m ms)
  let ?l1 = "ls[m := (ls ! m)\<lparr>branch := Some vb\<rparr>]"
  have "a < length ?l1" using Cons.prems by simp
  from Cons.IH[OF this]
  have ih: "fold (\<lambda>a l. l[a := (l ! a)\<lparr>branch := Some vb\<rparr>]) ms ?l1 ! a
      = (if a \<in> set ms then (?l1 ! a)\<lparr>branch := Some vb\<rparr> else ?l1 ! a)" .
  show ?case
  proof (cases "a = m")
    case True
    then have "?l1 ! a = (ls ! a)\<lparr>branch := Some vb\<rparr>" using Cons.prems by simp
    then show ?thesis using ih True by simp
  next
    case False
    then have "?l1 ! a = ls ! a" by simp
    then show ?thesis using ih False by simp
  qed
qed

lemma refers_to_cong:
  assumes "\<forall>a\<in>set (vis_lines c). ls' ! a = ls ! a"
  shows "refers_to b ls' c = refers_to b ls c"
  using assms by (auto simp: refers_to_def list_ex_iff)

lemma repoint_spec:
  assumes "k \<le> length cs"
    and "distinct (concat (map vis_lines (take k cs)))"
    and "\<forall>c\<in>set (take k cs). \<forall>a\<in>set (vis_lines c). a < length ls"
  shows "length (repoint wb vb cs k ls) = length ls
     \<and> (\<forall>a<length ls. repoint wb vb cs k ls ! a
           = (if a \<in> scanned_lines wb ls (take k cs) \<and> branch (ls ! a) = Some wb
              then (ls ! a)\<lparr>branch := Some vb\<rparr> else ls ! a))"
  using assms
proof (induction k arbitrary: ls)
  case 0
  then show ?case by (simp add: scanned_lines_def scanned_commits_def)
next
  case (Suc k)
  let ?c = "cs ! k"
  let ?ms = "filter (\<lambda>a. branch (ls ! a) = Some wb) (vis_lines ?c)"
  have k: "k < length cs" using Suc.prems(1) by simp
  have tk: "take (Suc k) cs = take k cs @ [?c]" using k by (simp add: take_Suc_conv_app_nth)
  have ref: "refers_to wb ls ?c \<longleftrightarrow> ?ms \<noteq> []"
    by (auto simp: refers_to_def list_ex_iff filter_empty_conv)
  show ?case
  proof (cases "?ms = []")
    case True
    then have "scanned_lines wb ls (take (Suc k) cs) = {}"
      using ref by (simp add: tk scanned_lines_def scanned_commits_def)
    then show ?thesis using True by (simp add: Let_def)
  next
    case False
    let ?l1 = "fold (\<lambda>a l. l[a := (l ! a)\<lparr>branch := Some vb\<rparr>]) ?ms ls"
    have len1: "length ?l1 = length ls" by (rule fold_repoint_length)
    have nth1: "?l1 ! a = (if a \<in> set ?ms then (ls ! a)\<lparr>branch := Some vb\<rparr> else ls ! a)"
      if "a < length ls" for a
      using fold_repoint_nth[OF that] .
    have dk: "distinct (concat (map vis_lines (take k cs)))"
      and disj: "\<forall>c\<in>set (take k cs). set (vis_lines c) \<inter> set (vis_lines ?c) = {}"
      using Suc.prems(2) by (auto simp: tk)
    have rng: "\<forall>c\<in>set (take k cs). \<forall>a\<in>set (vis_lines c). a < length ?l1"
      using Suc.prems(3) len1 by (auto simp: tk)
    have same: "?l1 ! a = ls ! a" if "c \<in> set (take k cs)" "a \<in> set (vis_lines c)" for c a
    proof -
      have "a < length ls" using Suc.prems(3) that by (auto simp: tk)
      moreover have "a \<notin> set ?ms" using disj that by auto
      ultimately show ?thesis using nth1[of a] by auto
    qed
    have "takeWhile (refers_to wb ?l1) (rev (take k cs)) = takeWhile (refers_to wb ls) (rev (take k cs))"
      using same by (intro takeWhile_cong refl refers_to_cong) auto
    then have sc1: "scanned_lines wb ?l1 (take k cs) = scanned_lines wb ls (take k cs)"
      by (simp add: scanned_lines_def scanned_commits_def)
    have sc: "scanned_lines wb ls (take (Suc k) cs)
        = set (vis_lines ?c) \<union> scanned_lines wb ls (take k cs)"
      using False ref by (simp add: tk scanned_lines_def scanned_commits_def)
    have sub: "scanned_lines wb ls (take k cs) \<subseteq> (\<Union>c\<in>set (take k cs). set (vis_lines c))"
      using set_takeWhileD[of _ "refers_to wb ls" "rev (take k cs)"]
      by (auto simp: scanned_lines_def scanned_commits_def)
    have ih: "length (repoint wb vb cs k ?l1) = length ?l1
       \<and> (\<forall>a<length ?l1. repoint wb vb cs k ?l1 ! a
             = (if a \<in> scanned_lines wb ?l1 (take k cs) \<and> branch (?l1 ! a) = Some wb
                then (?l1 ! a)\<lparr>branch := Some vb\<rparr> else ?l1 ! a))"
      using Suc.IH[of ?l1] k dk rng by simp
    have step: "repoint wb vb cs (Suc k) ls = repoint wb vb cs k ?l1"
      using False by (simp add: Let_def)
    have "repoint wb vb cs k ?l1 ! a
        = (if a \<in> scanned_lines wb ls (take (Suc k) cs) \<and> branch (ls ! a) = Some wb
           then (ls ! a)\<lparr>branch := Some vb\<rparr> else ls ! a)"
      if a: "a < length ls" for a
    proof (cases "a \<in> set (vis_lines ?c)")
      case True
      then have "a \<notin> scanned_lines wb ls (take k cs)" using sub disj by auto
      then show ?thesis using ih a len1 sc1 sc True nth1[OF a] by auto
    next
      case False
      then have "?l1 ! a = ls ! a" using nth1[OF a] by simp
      then show ?thesis using ih a len1 sc1 sc False by auto
    qed
    then show ?thesis using step ih len1 by simp
  qed
qed


lemma splice_index_of_removes: "distinct bs \<Longrightarrow> a \<notin> set (splice_index_of bs a)"
  by (auto simp: splice_index_of_def dest: in_set_butlastD)

text \<open>C3. A commit cell that takes its owner from the row's branch tip, below-right of a
  backslash owned by a branch \<open>wrong_branch\<close>, scans the commits built so far from the
  most recent one back, as long as each has a line that refers to \<open>wrong_branch\<close>
  (\<open>scanned_commits\<close>): every line of these commits that refers to \<open>wrong_branch\<close> now
  refers to the tip, every other line and every other field is as before, the scan ends
  at the first commit without such a line, and \<open>wrong_branch\<close> is no longer in the
  registry. The hypotheses say that the state is well formed: commits do not share
  VisLine objects, their addresses are in the store, and the registry has no branch
  twice.\<close>

theorem C3_retroactive_repair:
  assumes "char_is (v_nw nb) backslash" and "branch_of (v_nw nb) = Some wrong_branch"
    and "distinct (concat (map vis_lines (commits s)))"
    and "\<forall>c\<in>set (commits s). \<forall>a\<in>set (vis_lines c). a < length (line_store s)"
    and "distinct (branches s)"
  shows "\<exists>s'. case_star (Some tip) nb s = (Some tip, s')
     \<and> length (line_store s') = length (line_store s)
     \<and> (\<forall>a<length (line_store s). line_store s' ! a
           = (if a \<in> scanned_lines wrong_branch (line_store s) (commits s)
                 \<and> branch (line_store s ! a) = Some wrong_branch
              then (line_store s ! a)\<lparr>branch := Some tip\<rparr> else line_store s ! a))
     \<and> (\<forall>c\<in>set (scanned_commits wrong_branch (line_store s) (commits s)).
           refers_to wrong_branch (line_store s) c)
     \<and> (length (scanned_commits wrong_branch (line_store s) (commits s)) < length (commits s)
          \<longrightarrow> \<not> refers_to wrong_branch (line_store s)
                (rev (commits s) ! length (scanned_commits wrong_branch (line_store s) (commits s))))
     \<and> scanned_commits wrong_branch (line_store s) (commits s)
         = take (length (scanned_commits wrong_branch (line_store s) (commits s))) (rev (commits s))
     \<and> wrong_branch \<notin> set (branches s')
     \<and> (wrong_branch \<in> set (branches s) \<longrightarrow> branches s' = remove1 wrong_branch (branches s))
     \<and> commits s' = commits s \<and> branch_store s' = branch_store s"
proof -
  let ?s' = "fix_wrong_branch wrong_branch tip s"
  have cs: "case_star (Some tip) nb s = (Some tip, ?s')"
    using assms(1,2) by (simp add: case_star_def)
  have rp: "length (line_store ?s') = length (line_store s)
     \<and> (\<forall>a<length (line_store s). line_store ?s' ! a
           = (if a \<in> scanned_lines wrong_branch (line_store s) (commits s)
                 \<and> branch (line_store s ! a) = Some wrong_branch
              then (line_store s ! a)\<lparr>branch := Some tip\<rparr> else line_store s ! a))"
    using repoint_spec[of "length (commits s)" "commits s" "line_store s" wrong_branch tip]
      assms(3,4)
    by (simp add: fix_wrong_branch_def)
  have tw: "\<forall>c\<in>set (scanned_commits wrong_branch (line_store s) (commits s)).
           refers_to wrong_branch (line_store s) c"
    unfolding scanned_commits_def by (auto dest: set_takeWhileD)
  have stop: "\<not> refers_to wrong_branch (line_store s)
                (rev (commits s) ! length (scanned_commits wrong_branch (line_store s) (commits s)))"
    if "length (scanned_commits wrong_branch (line_store s) (commits s)) < length (commits s)"
    using that nth_length_takeWhile[of "refers_to wrong_branch (line_store s)" "rev (commits s)"]
    by (simp add: scanned_commits_def)
  have pre: "scanned_commits wrong_branch (line_store s) (commits s)
         = take (length (scanned_commits wrong_branch (line_store s) (commits s))) (rev (commits s))"
    unfolding scanned_commits_def by (rule takeWhile_eq_take)
  have reg: "wrong_branch \<notin> set (branches ?s')"
    "wrong_branch \<in> set (branches s) \<longrightarrow> branches ?s' = remove1 wrong_branch (branches s)"
    using splice_index_of_removes[OF assms(5)]
    by (simp_all add: fix_wrong_branch_def) (simp add: splice_index_of_def)
  have fr: "commits ?s' = commits s \<and> branch_store ?s' = branch_store s"
    by (simp add: fix_wrong_branch_def)
  show ?thesis
    using cs rp tw stop pre reg fr by (intro exI[of _ ?s']) blast
qed

theorem C3_witness:
  "parse_rows SEP 0.25 (take 3 (js_split repair_log [CHR 0x0A]))
     (projr (build_branches two_branches SEP)) = Inr repair_state
   \<and> char_is (v_nw repair_neighbours) backslash \<and> branch_of (v_nw repair_neighbours) = Some 3
   \<and> distinct (concat (map vis_lines (commits repair_state)))
   \<and> list_all (\<lambda>c. list_all (\<lambda>a. a < length (line_store repair_state)) (vis_lines c))
        (commits repair_state)
   \<and> distinct (branches repair_state)
   \<and> map (\<lambda>c. map (\<lambda>a. branch (line_store repair_state ! a)) (vis_lines c)) (commits repair_state)
       = [[Some 0], [Some 3, Some 0]]
   \<and> branches repair_state = [0, 1, 2, 3]
   \<and> (\<exists>s'. case_star (Some 1) repair_neighbours repair_state = (Some 1, s')
         \<and> map (\<lambda>c. map (\<lambda>a. branch (line_store s' ! a)) (vis_lines c)) (commits s')
             = [[Some 0], [Some 1, Some 0]]
         \<and> branches s' = [0, 1, 2])"
proof -
  have h: "char_is (v_nw repair_neighbours) backslash" "branch_of (v_nw repair_neighbours) = Some 3"
    "distinct (concat (map vis_lines (commits repair_state)))"
    "list_all (\<lambda>c. list_all (\<lambda>a. a < length (line_store repair_state)) (vis_lines c))
        (commits repair_state)"
    "distinct (branches repair_state)"
    "map (\<lambda>c. map (\<lambda>a. branch (line_store repair_state ! a)) (vis_lines c)) (commits repair_state)
       = [[Some 0], [Some 3, Some 0]]"
    "branches repair_state = [0, 1, 2, 3]"
    by (simp_all add: repair_neighbours_def repair_state_def char_is_def branch_of_def)
  have rng: "\<forall>c\<in>set (commits repair_state). \<forall>a\<in>set (vis_lines c). a < length (line_store repair_state)"
    using h(4) by (simp add: list_all_iff)
  from C3_retroactive_repair[OF h(1,2,3) rng h(5), of 1]
  obtain s' where s': "case_star (Some 1) repair_neighbours repair_state = (Some 1, s')"
    by blast
  then have e: "s' = snd (case_star (Some 1) repair_neighbours repair_state)" by simp
  have "map (\<lambda>c. map (\<lambda>a. branch (line_store (snd (case_star (Some 1) repair_neighbours repair_state)) ! a))
            (vis_lines c)) (commits (snd (case_star (Some 1) repair_neighbours repair_state)))
         = [[Some 0], [Some 1, Some 0]]
      \<and> branches (snd (case_star (Some 1) repair_neighbours repair_state)) = [0, 1, 2]"
    by code_simp
  then show ?thesis using h s' e repair_state_reached by auto
qed

subsection \<open>Joining the lines of consecutive commits\<close>

lemma mset_js_entries: "mset (js_entries d) = mset d"
  by (simp add: js_entries_def)


lemma distinct_js_entries: "distinct (js_entries d) = distinct d"
  using mset_js_entries[of d] by (metis distinct_count_atmost_1 set_mset_mset count_mset_0_iff
      mset_eq_setD)


lemma length_upd [simp]: "length (upd a f ls) = length ls"
  by (simp add: upd_def)



lemma finalize_line_length [simp]: "length (finalize_line r ld e ls) = length ls"
  by (cases e) (simp add: finalize_line_def Let_def split: option.splits)



lemma fold_finalize_length [simp]: "length (fold (finalize_line r ld) es ls) = length ls"
  by (induction es arbitrary: ls) auto









subsection \<open>Ids in the registry\<close>

text \<open>C5. The ids of the registry are not always distinct. The counter of an inferred
  branch is the registry size minus one, and the registry shrinks when the repair removes
  a branch: on \<open>reuse_log\<close> the row loop ends with two registered inferred branches
  whose id is \<open>~3\<close>. Also a local branch \<^verbatim>\<open>origin/x\<close> and the remote branch \<^verbatim>\<open>x\<close> of
  \<^verbatim>\<open>origin\<close> get the same id.\<close>

theorem C5_duplicate_ids:
  "(case scan reuse_log two_branches SEP 0.25 of
      Inl e \<Rightarrow> False
    | Inr s \<Rightarrow>
        map (\<lambda>a. id' (branch_store s ! a)) (branches s)
          = [''master'', ''feature'', ''HEAD'', ''~3'', ''~3'']
        \<and> branches s = [0, 1, 2, 4, 5]
        \<and> map inferred (branch_store s) = [False, False, False, True, True, True])
   \<and> (case build_branches same_id_branches SEP of
         Inl e \<Rightarrow> False
       | Inr s \<Rightarrow> map (\<lambda>a. id' (branch_store s ! a)) (branches s)
                    = [''origin/x'', ''origin/x'', ''HEAD''])"
  by code_simp

subsection \<open>Every state the row loop reaches is well formed\<close>

text \<open>\<open>well_formed\<close> holds of the empty state and is kept by every step that \<^verbatim>\<open>parse\<close>
  takes before the colours are assigned: registering a branch, resolving the owner of a
  cell (with the repair and the merge marker), accumulating a line, closing a commit.
  So the states in which a commit is closed and in which a commit cell is resolved
  are well formed, whatever the input.\<close>

lemma well_formed_init: "well_formed init_state"
  by (simp add: well_formed_def init_state_def)

lemma well_formedI:
  assumes "distinct (branches s)"
    and "\<forall>b\<in>set (branches s). b < length (branch_store s)"
    and "distinct (map fst (densened_vis_line_by_branch_id s))"
    and "distinct (map fst (last_densened_vis_line_by_branch_id s))"
    and "distinct (concat (map vis_lines (commits s)) @ map snd (densened_vis_line_by_branch_id s))"
    and "\<forall>a\<in>set (concat (map vis_lines (commits s)) @ map snd (densened_vis_line_by_branch_id s)).
           a < length (line_store s)"
    and "distinct (map snd (last_densened_vis_line_by_branch_id s))"
    and "set (map snd (last_densened_vis_line_by_branch_id s))
          = (if commits s = [] then {} else set (vis_lines (last (commits s))))"
  shows "well_formed s"
  using assms unfolding well_formed_def list_all_iff by blast

lemma well_formedD:
  assumes "well_formed s"
  shows "distinct (branches s)"
    and "\<forall>b\<in>set (branches s). b < length (branch_store s)"
    and "distinct (map fst (densened_vis_line_by_branch_id s))"
    and "distinct (map fst (last_densened_vis_line_by_branch_id s))"
    and "distinct (concat (map vis_lines (commits s)) @ map snd (densened_vis_line_by_branch_id s))"
    and "\<forall>a\<in>set (concat (map vis_lines (commits s)) @ map snd (densened_vis_line_by_branch_id s)).
           a < length (line_store s)"
    and "distinct (map snd (last_densened_vis_line_by_branch_id s))"
    and "set (map snd (last_densened_vis_line_by_branch_id s))
          = (if commits s = [] then {} else set (vis_lines (last (commits s))))"
  using assms unfolding well_formed_def list_all_iff by blast+

lemma well_formed_same_lines:
  assumes "well_formed s"
    and "distinct (branches s')" and "\<forall>b\<in>set (branches s'). b < length (branch_store s')"
    and "densened_vis_line_by_branch_id s' = densened_vis_line_by_branch_id s"
    and "last_densened_vis_line_by_branch_id s' = last_densened_vis_line_by_branch_id s"
    and "map vis_lines (commits s') = map vis_lines (commits s)"
    and "length (line_store s') = length (line_store s)"
  shows "well_formed s'"
proof -
  have e: "commits s' = [] \<longleftrightarrow> commits s = []"
    using assms(6) by (metis map_is_Nil_conv)
  have l: "vis_lines (last (commits s')) = vis_lines (last (commits s))" if "commits s \<noteq> []"
    using assms(6) that e by (metis last_map)
  show ?thesis
    using well_formedD[OF assms(1)] assms(2-7) e l
    by (intro well_formedI) (simp_all split: if_splits)
qed

lemma new_branch_well_formed:
  "well_formed s \<Longrightarrow> well_formed (snd (new_branch nm remote tracking s))"
proof -
  assume wf: "well_formed s"
  let ?s' = "snd (new_branch nm remote tracking s)"
  have "distinct (branches ?s')"
    using well_formedD(1,2)[OF wf] by (auto simp: new_branch_def Let_def)
  moreover have "\<forall>b\<in>set (branches ?s'). b < length (branch_store ?s')"
    using well_formedD(2)[OF wf] by (auto simp: new_branch_def Let_def less_Suc_eq)
  ultimately show ?thesis
    by (intro well_formed_same_lines[OF wf]) (simp_all add: new_branch_def Let_def)
qed


lemma set_inferred_well_formed: "well_formed s \<Longrightarrow> well_formed (set_inferred a s)"
proof -
  assume wf: "well_formed s"
  show ?thesis
    using well_formedD(1,2)[OF wf]
    by (intro well_formed_same_lines[OF wf]) (simp_all add: set_inferred_def)
qed

lemma add_branch_line_well_formed:
  assumes "well_formed s" and "add_branch_line separator l s = Inr s'"
  shows "well_formed s'"
proof -
  obtain nm remote tracking where "s' = snd (new_branch nm remote tracking s)"
    using assms(2) unfolding add_branch_line_def Let_def
    by (auto split: option.splits if_splits list.splits)
  then show ?thesis using new_branch_well_formed[OF assms(1)] by simp
qed

lemma fold_err_invariant:
  assumes "\<And>x s s'. P s \<Longrightarrow> f x s = Inr s' \<Longrightarrow> P s'"
  shows "P s \<Longrightarrow> fold_err f xs s = Inr s' \<Longrightarrow> P s'"
proof (induction xs arbitrary: s)
  case Nil
  then show ?case by simp
next
  case (Cons x xs)
  show ?case
  proof (cases "f x s")
    case (Inl e)
    then show ?thesis using Cons.prems(2) by simp
  next
    case (Inr t)
    then show ?thesis using Cons.IH[of t] Cons.prems assms[of s x t] by simp
  qed
qed

lemma build_branches_well_formed:
  assumes "build_branches branch_data separator = Inr s"
  shows "well_formed s"
proof -
  obtain s0 where f: "fold_err (add_branch_line separator) (js_split branch_data [CHR 0x0A]) init_state = Inr s0"
    and s: "s = snd (new_branch ''HEAD'' None None s0)"
    using assms by (auto simp: build_branches_def split: sum.splits)
  have "well_formed s0"
    by (rule fold_err_invariant[where P = well_formed, OF add_branch_line_well_formed well_formed_init f])
  then show ?thesis using s new_branch_well_formed by simp
qed

lemma repoint_length: "length (repoint wb vb cs k ls) = length ls"
  by (induction k arbitrary: ls) (simp_all add: Let_def fold_repoint_length)

lemma splice_index_of_distinct: "distinct bs \<Longrightarrow> distinct (splice_index_of bs a)"
  by (simp add: splice_index_of_def distinct_butlast)

lemma splice_index_of_subset: "set (splice_index_of bs a) \<subseteq> set bs"
  using set_remove1_subset[of a bs] by (auto simp: splice_index_of_def dest: in_set_butlastD)

lemma fix_wrong_branch_well_formed:
  assumes "well_formed s"
  shows "well_formed (fix_wrong_branch wb vb s)"
proof -
  have "distinct (branches (fix_wrong_branch wb vb s))"
    using well_formedD(1)[OF assms] by (simp add: fix_wrong_branch_def splice_index_of_distinct)
  moreover have "\<forall>b\<in>set (branches (fix_wrong_branch wb vb s)).
      b < length (branch_store (fix_wrong_branch wb vb s))"
    using well_formedD(2)[OF assms] splice_index_of_subset[of "branches s" wb]
    by (auto simp: fix_wrong_branch_def)
  ultimately show ?thesis
    by (intro well_formed_same_lines[OF assms]) (simp_all add: fix_wrong_branch_def repoint_length)
qed

lemma flag_last_commit_vis_lines: "map vis_lines (flag_last_commit cs) = map vis_lines cs"
proof (cases "cs = []")
  case True
  then show ?thesis by (simp add: flag_last_commit_def)
next
  case False
  then have "map vis_lines cs = map vis_lines (butlast cs @ [last cs])" by simp
  then show ?thesis using False by (simp add: flag_last_commit_def del: append_butlast_last_id)
qed

lemma flag_last_commit_well_formed:
  assumes "well_formed s"
  shows "well_formed (s\<lparr>commits := flag_last_commit (commits s)\<rparr>)"
  using well_formedD(1,2)[OF assms]
  by (intro well_formed_same_lines[OF assms]) (simp_all add: flag_last_commit_vis_lines)

lemma inferred_branch_well_formed:
  "well_formed s \<Longrightarrow>
     well_formed (set_inferred (fst (new_branch nm remote tracking s))
                    (snd (new_branch nm remote tracking s)))"
  by (intro set_inferred_well_formed new_branch_well_formed)

lemma merge_marker_well_formed:
  assumes "well_formed s"
  shows "well_formed (snd (merge_marker s))"
proof -
  define s1 where "s1 = s\<lparr>commits := flag_last_commit (commits s)\<rparr>"
  define captured where
    "captured = (if commits s = [] then None else subject_merge_match (subject (last (commits s))))"
  have wf: "well_formed (set_inferred (fst (new_branch nm remote None s1))
                           (snd (new_branch nm remote None s1)))" for nm remote
    unfolding s1_def
    by (rule inferred_branch_well_formed[OF flag_last_commit_well_formed[OF assms]])
  show ?thesis
    unfolding merge_marker_def Let_def s1_def[symmetric] captured_def[symmetric]
    using wf by (cases captured) simp_all
qed

lemma case_star_well_formed:
  assumes "well_formed s"
  shows "well_formed (snd (case_star tip nb s))"
  using assms fix_wrong_branch_well_formed[OF assms] inferred_branch_well_formed[OF assms]
  by (simp add: case_star_def split_beta split: option.splits)

lemma case_backslash_well_formed:
  assumes "well_formed s" and "case_backslash i nb s = Inr (b, s')"
  shows "well_formed s'"
proof -
  have "s' = s \<or> s' = snd (merge_marker s)"
    using assms(2) unfolding case_backslash_def by (auto split: if_splits option.splits)
  then show ?thesis using assms(1) merge_marker_well_formed by auto
qed

lemma resolve_cell_well_formed:
  assumes "well_formed s" and "resolve_cell tip i c nb s = Inr (b, l, s')"
  shows "well_formed s'"
proof -
  have "s' = s \<or> s' = snd (case_star tip nb s) \<or> (\<exists>b'. case_backslash i nb s = Inr (b', s'))"
    using assms(2) unfolding resolve_cell_def
    by (auto split: if_splits sum.splits prod.splits)
  then show ?thesis
    using assms(1) case_star_well_formed case_backslash_well_formed by blast
qed

lemma accumulate_well_formed:
  assumes "well_formed s"
  shows "well_formed (accumulate i b l s)"
proof -
  define key where "key = id' (branch_store s ! b)"
  define moved where "moved = l\<lparr>x0 := x0 l + real i, xn := xn l + real i,
     xcs := map_option (\<lambda>x. x + real i) (xcs l), xce := map_option (\<lambda>x. x + real i) (xce l)\<rparr>"
  define s1 where "s1 = (case map_of (densened_vis_line_by_branch_id s) key of
      Some a \<Rightarrow> s\<lparr>line_store := (line_store s)[a := (line_store s ! a)\<lparr>xn := xn moved, xce := xce moved\<rparr>]\<rparr>
    | None \<Rightarrow> s\<lparr>line_store := line_store s @ [moved\<lparr>branch := Some b\<rparr>],
               densened_vis_line_by_branch_id :=
                 densened_vis_line_by_branch_id s @ [(key, length (line_store s))]\<rparr>)"
  have acc: "accumulate i b l s = s1\<lparr>xn_by_branch_id := dict_set key (xn moved) (xn_by_branch_id s1)\<rparr>"
    unfolding accumulate_def Let_def s1_def key_def moved_def ..
  have wf1: "well_formed s1"
  proof (cases "map_of (densened_vis_line_by_branch_id s) key")
    case (Some a)
    then show ?thesis
      using well_formedD(1,2)[OF assms]
      by (intro well_formed_same_lines[OF assms]) (simp_all add: s1_def)
  next
    case None
    then have fresh: "key \<notin> fst ` set (densened_vis_line_by_branch_id s)"
      by (simp add: map_of_eq_None_iff)
    have new: "length (line_store s)
        \<notin> set (concat (map vis_lines (commits s)) @ map snd (densened_vis_line_by_branch_id s))"
      using well_formedD(6)[OF assms] by blast
    have s1: "s1 = s\<lparr>line_store := line_store s @ [moved\<lparr>branch := Some b\<rparr>],
               densened_vis_line_by_branch_id :=
                 densened_vis_line_by_branch_id s @ [(key, length (line_store s))]\<rparr>"
      using None by (simp add: s1_def)
    show ?thesis
    proof (rule well_formedI)
      show "distinct (branches s1)" using well_formedD(1)[OF assms] by (simp add: s1)
      show "\<forall>b\<in>set (branches s1). b < length (branch_store s1)"
        using well_formedD(2)[OF assms] by (simp add: s1)
      show "distinct (map fst (densened_vis_line_by_branch_id s1))"
        using well_formedD(3)[OF assms] fresh by (simp add: s1)
      show "distinct (map fst (last_densened_vis_line_by_branch_id s1))"
        using well_formedD(4)[OF assms] by (simp add: s1)
      show "distinct (concat (map vis_lines (commits s1)) @ map snd (densened_vis_line_by_branch_id s1))"
        using well_formedD(5)[OF assms] new by (simp add: s1)
      show "\<forall>a\<in>set (concat (map vis_lines (commits s1)) @ map snd (densened_vis_line_by_branch_id s1)).
           a < length (line_store s1)"
        using well_formedD(6)[OF assms] by (auto simp: s1 less_Suc_eq)
      show "distinct (map snd (last_densened_vis_line_by_branch_id s1))"
        using well_formedD(7)[OF assms] by (simp add: s1)
      show "set (map snd (last_densened_vis_line_by_branch_id s1))
          = (if commits s1 = [] then {} else set (vis_lines (last (commits s1))))"
        using well_formedD(8)[OF assms] by (simp add: s1)
    qed
  qed
  show ?thesis
    using well_formedD(1,2)[OF wf1]
    by (intro well_formed_same_lines[OF wf1]) (simp_all add: acc)
qed

lemma process_cell_well_formed:
  assumes "well_formed (fst acc)" and "process_cell tip cs i acc = Inr acc'"
  shows "well_formed (fst acc')"
proof -
  obtain s vis cb where a: "acc = (s, vis, cb)" by (cases acc) auto
  let ?nb = "\<lparr>v_n = elem_at (last_vis s) (int i), v_nw = elem_at (last_vis s) (int i - 1),
     v_w_char = elem_at cs (int i - 1), v_ne = elem_at (last_vis s) (int i + 1),
     v_nee = elem_at (last_vis s) (int i + 2), v_e = elem_at vis 0, v_ee = elem_at vis 1\<rparr>"
  show ?thesis
  proof (cases "resolve_cell tip i (cs ! i) ?nb s")
    case (Inl e)
    then show ?thesis using assms(2) by (simp add: process_cell_def a Let_def)
  next
    case (Inr res)
    obtain b l s1 where res: "res = (b, l, s1)" by (cases res) auto
    have wf1: "well_formed s1"
      using resolve_cell_well_formed[of s tip i "cs ! i" ?nb b l s1] assms(1) Inr
      by (simp add: a res)
    have "fst acc' = (case b of Some b' \<Rightarrow> (case l of Some l' \<Rightarrow> accumulate i b' l' s1 | None \<Rightarrow> s1)
                     | None \<Rightarrow> s1)"
      using assms(2) Inr by (auto simp: process_cell_def a Let_def res)
    then show ?thesis using wf1 accumulate_well_formed by (simp split: option.splits)
  qed
qed

lemma resolve_refs_well_formed:
  assumes "well_formed s"
  shows "well_formed (snd (resolve_refs csv h s))"
  using well_formedD(1,2)[OF assms]
  by (intro well_formed_same_lines[OF assms]) (simp_all add: resolve_refs_def Let_def)

lemma close_commit_well_formed:
  assumes "well_formed s"
  shows "well_formed (close_commit r c s)"
proof -
  define entries where "entries = js_entries (densened_vis_line_by_branch_id s)"
  define ls where "ls = fold (finalize_line r (last_densened_vis_line_by_branch_id s)) entries (line_store s)"
  define vs where "vs = sort_cmp (\<lambda>a b. curve_anchor (ls ! b) - curve_anchor (ls ! a)) (map snd entries)"
  define s' where "s' = close_commit r c s"
  have s': "s' = s\<lparr>line_store := ls, commits := commits s @ [c\<lparr>vis_lines := vs\<rparr>],
           last_densened_vis_line_by_branch_id := densened_vis_line_by_branch_id s,
           densened_vis_line_by_branch_id := []\<rparr>"
    unfolding s'_def close_commit_def Let_def vs_def ls_def entries_def ..
  have m: "mset vs = mset (map snd (densened_vis_line_by_branch_id s))"
    by (simp add: vs_def entries_def mset_sort_cmp mset_js_entries)
  then have sv: "set vs = set (map snd (densened_vis_line_by_branch_id s))"
    by (metis set_mset_mset)
  have dv: "distinct vs \<longleftrightarrow> distinct (map snd (densened_vis_line_by_branch_id s))"
    using m by (metis distinct_count_atmost_1 mset_eq_setD)
  have len: "length ls = length (line_store s)" by (simp add: ls_def)
  have "well_formed s'"
  proof (rule well_formedI)
    show "distinct (branches s')" using well_formedD(1)[OF assms] by (simp add: s')
    show "\<forall>b\<in>set (branches s'). b < length (branch_store s')"
      using well_formedD(2)[OF assms] by (simp add: s')
    show "distinct (map fst (densened_vis_line_by_branch_id s'))" by (simp add: s')
    show "distinct (map fst (last_densened_vis_line_by_branch_id s'))"
      using well_formedD(3)[OF assms] by (simp add: s')
    show "distinct (concat (map vis_lines (commits s')) @ map snd (densened_vis_line_by_branch_id s'))"
      using well_formedD(5)[OF assms] sv dv by (simp add: s')
    show "\<forall>a\<in>set (concat (map vis_lines (commits s')) @ map snd (densened_vis_line_by_branch_id s')).
           a < length (line_store s')"
      using well_formedD(6)[OF assms] sv len by (auto simp: s')
    show "distinct (map snd (last_densened_vis_line_by_branch_id s'))"
      using well_formedD(5)[OF assms] by (simp add: s')
    show "set (map snd (last_densened_vis_line_by_branch_id s'))
          = (if commits s' = [] then {} else set (vis_lines (last (commits s'))))"
      using sv by (simp add: s')
  qed
  then show ?thesis by (simp add: s'_def)
qed

lemma last_vis_well_formed:
  assumes "well_formed s"
  shows "well_formed (s\<lparr>last_vis := vis\<rparr>)"
  using well_formedD(1,2)[OF assms]
  by (intro well_formed_same_lines[OF assms]) simp_all

lemma parse_row_well_formed:
  assumes "well_formed s" and "parse_row separator r row s = Inr s'"
  shows "well_formed s'"
proof (cases "snd row = ''... ''")
  case True
  then show ?thesis using assms by (simp add: parse_row_def split_beta)
next
  case False
  define fs where "fs = js_split (snd row) separator"
  define resolved where "resolved = resolve_refs (field_or_empty fs 6) (field_or_empty fs 2) s"
  define cells where "cells = fold_err (process_cell (branch_tip_of (fst resolved)) (vis_chars_of separator (snd row)))
       (rev [0..<length (vis_chars_of separator (snd row))]) (snd resolved, [], None)"
  have pr: "(case cells of Inl e \<Rightarrow> Inl e
     | Inr (s2, vis, cb) \<Rightarrow>
         Inr ((if field_or_empty fs 7 \<noteq> []
               then close_commit r
                      \<lparr>commit_i = fst row, vis_lines = [], commit_branch = cb,
                       hash_long = field_or_empty fs 1, hash = field_or_empty fs 2,
                       author_name = field_or_empty fs 3, author_email = field_or_empty fs 4,
                       datetime = take 19 (field_or_empty fs 5), refs = fst resolved,
                       subject = field_or_empty fs 7, merge = False\<rparr> s2
               else s2)\<lparr>last_vis := vis\<rparr>)) = Inr s'"
    using assms(2) False
    unfolding parse_row_def Let_def split_beta fs_def[symmetric] resolved_def[symmetric] cells_def[symmetric]
    by (simp split: if_splits)
  show ?thesis
  proof (cases cells)
    case (Inl e)
    then show ?thesis using pr by simp
  next
    case (Inr res)
    obtain s2 vis cb where res: "res = (s2, vis, cb)" by (cases res) auto
    have "well_formed (fst (snd resolved, [] :: vis_cell list, None :: addr option))"
      using resolve_refs_well_formed[OF assms(1)] by (simp add: resolved_def)
    from fold_err_invariant[where P = "\<lambda>acc. well_formed (fst acc)", OF process_cell_well_formed this
        Inr[unfolded cells_def]]
    have "well_formed s2" by (simp add: res)
    then have "well_formed ((if field_or_empty fs 7 \<noteq> [] then close_commit r c s2 else s2)\<lparr>last_vis := vis\<rparr>)"
      for c
      using close_commit_well_formed last_vis_well_formed by simp
    then show ?thesis using pr Inr res by auto
  qed
qed

lemma parse_rows_well_formed:
  assumes "well_formed s" and "parse_rows separator r rows s = Inr s'"
  shows "well_formed s'"
  by (rule fold_err_invariant[where P = well_formed and f = "parse_row separator r",
        OF parse_row_well_formed assms(1) assms(2)[unfolded parse_rows_def]])

lemma scan_well_formed:
  assumes "scan log_data branch_data separator r = Inr s"
  shows "well_formed s"
proof (cases "build_branches branch_data separator")
  case (Inl e)
  then show ?thesis using assms by (simp add: scan_def)
next
  case (Inr s0)
  then have "parse_rows separator r (js_split log_data [CHR 0x0A]) s0 = Inr s"
    using assms by (simp add: scan_def)
  then show ?thesis using parse_rows_well_formed[OF build_branches_well_formed[OF Inr]] by simp
qed

text \<open>A well-formed state has commits that share no VisLine object, whose lines are in
  the store, and a registry without duplicates.\<close>

lemma well_formed_commits:
  assumes "well_formed s"
  shows "distinct (concat (map vis_lines (commits s)))"
    and "\<forall>c\<in>set (commits s). \<forall>a\<in>set (vis_lines c). a < length (line_store s)"
    and "distinct (branches s)"
  using well_formedD(1,5,6)[OF assms] by auto

end
